theory Spec2Isabelle
  imports Complex_Main
begin

section \<open>Decoding classifier score tensors into text\<close>

text \<open>
  A shallow embedding of \<^verbatim>\<open>CaptchaOcrTester.postprocess_output\<close> and
  \<^verbatim>\<open>CaptchaOcrTester.get_model_config\<close> (file \<^verbatim>\<open>test_captcha_models.py\<close>).

  Conventions of the embedding:
  \<^item> a numpy array is a record of its shape and its elements in row-major order;
  \<^item> scores are real numbers: infinities and NaN are outside the model;
  \<^item> \<^verbatim>\<open>np.exp\<close> is a parameter \<open>np_exp\<close> of the model, so that what is proved holds for the
    real exponential and for whatever rounding of it numpy computes;
  \<^item> a Python exception is a value \<open>Inl e\<close> of the result type \<open>error + 'a\<close>;
  \<^item> the model file name is a string of ASCII characters;
  \<^item> the \<^verbatim>\<open>debug\<close> flag is \<^verbatim>\<open>False\<close>: the blocks it guards only print;
  \<^item> \<^verbatim>\<open>np.argsort\<close> uses an unstable sort, so the order it gives to equal scores
    is not fixed by numpy: the sort is a parameter \<open>np_argsort\<close> of the model;
  \<^item> arrays are well formed (\<open>wf_array\<close>): they hold as many elements as their shape says.
\<close>

subsection \<open>The numpy functions that are parameters\<close>

record numpy =
  np_exp :: "real \<Rightarrow> real"
  np_argsort :: "real list \<Rightarrow> nat list"

subsection \<open>Exceptions\<close>

datatype error = ValueError | IndexError | KeyError | UnboundLocalError | TypeError

text \<open>A local variable of the Python function that may be read before it is assigned.\<close>

datatype 'a pyvar = Unbound | PyNone | Bound 'a

subsection \<open>Strings\<close>

definition lower_char :: "char \<Rightarrow> char" where
  "lower_char c =
     (let n = (of_char c :: nat) in if 65 \<le> n \<and> n \<le> 90 then char_of (n + 32) else c)"

definition lower :: "string \<Rightarrow> string" where
  "lower s = map lower_char s"

fun startswith :: "string \<Rightarrow> string \<Rightarrow> bool" where
  "startswith s [] = True"
| "startswith [] (p # ps) = False"
| "startswith (c # cs) (p # ps) = (c = p \<and> startswith cs ps)"

definition endswith :: "string \<Rightarrow> string \<Rightarrow> bool" where
  "endswith s suf = startswith (rev s) (rev suf)"

text \<open>\<^verbatim>\<open>sub in s\<close>: \<open>sub\<close> occurs in \<open>s\<close> as a contiguous substring.\<close>

fun contains :: "string \<Rightarrow> string \<Rightarrow> bool" where
  "contains [] sub = (sub = [])"
| "contains (c # cs) sub = (startswith (c # cs) sub \<or> contains cs sub)"

definition isdigit_char :: "char \<Rightarrow> bool" where
  "isdigit_char c = (let n = (of_char c :: nat) in 48 \<le> n \<and> n \<le> 57)"

text \<open>
  \<^verbatim>\<open>re.search(r'v(\d+)', s)\<close>: the leftmost \<^verbatim>\<open>v\<close> that is followed by a digit,
  and the longest run of digits after it (the group).
\<close>

fun re_search_v_digits :: "string \<Rightarrow> string option" where
  "re_search_v_digits [] = None"
| "re_search_v_digits (c # cs) =
     (if c = CHR ''v'' \<and> takeWhile isdigit_char cs \<noteq> [] then Some (takeWhile isdigit_char cs)
      else re_search_v_digits cs)"

text \<open>\<^verbatim>\<open>str.isdigit\<close> on an ASCII string: non-empty and all characters digits.\<close>

definition isdigit :: "string \<Rightarrow> bool" where
  "isdigit s = (s \<noteq> [] \<and> list_all isdigit_char s)"

subsection \<open>The configuration tables\<close>

text \<open>Python dictionaries in insertion order, which is the order \<^verbatim>\<open>items()\<close> iterates in.\<close>

definition CHAR_SETS :: "(string \<times> string) list" where
  "CHAR_SETS =
     [(''63'', ''abcdefghijklmnopqrstuvwxyzABCDEFGHIJKLMNOPQRSTUVWXYZ0123456789$''),
      (''37_uppercase'', ''ABCDEFGHIJKLMNOPQRSTUVWXYZ0123456789$''),
      (''37_lowercase'', ''abcdefghijklmnopqrstuvwxyz0123456789$''),
      (''11'', ''0123456789$'')]"

definition MODEL_CONFIGS :: "(string \<times> nat \<times> string) list" where
  "MODEL_CONFIGS =
     [(''v1'', 6, ''63''),
      (''v2'', 6, ''11''),
      (''v3'', 5, ''63''),
      (''v4'', 6, ''37_lowercase''),
      (''v5'', 5, ''37_uppercase''),
      (''v6'', 4, ''63''),
      (''v7'', 6, ''11''),
      (''v8'', 5, ''37_uppercase'')]"

text \<open>
  The result of \<^verbatim>\<open>get_model_config\<close>: the pair \<^verbatim>\<open>("special", "captcha.onnx")\<close>,
  an entry of \<^verbatim>\<open>MODEL_CONFIGS\<close>, or \<^verbatim>\<open>(None, None)\<close>.
\<close>

datatype model_config = Special | Config nat string | NoConfig

definition get_model_config :: "string \<Rightarrow> model_config" where
  "get_model_config model_filename =
     (let model_lower = lower model_filename in
      if model_lower = ''model.onnx'' \<or> endswith model_lower ''/model.onnx'' \<or>
         model_lower = ''captcha.onnx'' \<or> endswith model_lower ''/captcha.onnx''
      then Special
      else
        (case re_search_v_digits (lower model_filename) of
           Some ds \<Rightarrow>
             (case map_of MODEL_CONFIGS (CHR ''v'' # ds) of
                Some (n, k) \<Rightarrow> Config n k
              | None \<Rightarrow> NoConfig)
         | None \<Rightarrow> NoConfig))"

text \<open>\<^verbatim>\<open>if seq_len_config and char_set_key\<close>: both components are truthy.\<close>

fun config_truthy :: "model_config \<Rightarrow> bool" where
  "config_truthy Special = True"
| "config_truthy (Config n k) = (n \<noteq> 0 \<and> k \<noteq> [])"
| "config_truthy NoConfig = False"

subsection \<open>Arrays\<close>

record ndarray =
  shape :: "nat list"
  data :: "real list"

text \<open>An array holds as many elements as its shape says.\<close>

definition wf_array :: "ndarray \<Rightarrow> bool" where
  "wf_array a = (length (data a) = prod_list (shape a))"

text \<open>The rows of \<^verbatim>\<open>flat.reshape(n, m)\<close>.\<close>

definition rows_of :: "nat \<Rightarrow> nat \<Rightarrow> 'a list \<Rightarrow> 'a list list" where
  "rows_of n m xs = map (\<lambda>i. take m (drop (i * m) xs)) [0..<n]"

text \<open>\<^verbatim>\<open>flat.reshape(n, m)\<close> raises ValueError unless the sizes agree.\<close>

definition reshape :: "nat \<Rightarrow> nat \<Rightarrow> 'a list \<Rightarrow> error + 'a list list" where
  "reshape n m xs = (if length xs = n * m then Inr (rows_of n m xs) else Inl ValueError)"

text \<open>\<^verbatim>\<open>np.min\<close> of a flat array; it raises ValueError on an empty one.\<close>

definition np_min :: "real list \<Rightarrow> error + real" where
  "np_min xs = (case xs of [] \<Rightarrow> Inl ValueError | x # r \<Rightarrow> Inr (fold min r x))"

text \<open>
  \<^verbatim>\<open>np.argmax\<close> of a vector: the index of the first occurrence of the maximum;
  ValueError on an empty vector.
\<close>

fun argmax_from :: "nat \<Rightarrow> real \<Rightarrow> nat \<Rightarrow> real list \<Rightarrow> nat" where
  "argmax_from best_i best_v i [] = best_i"
| "argmax_from best_i best_v i (x # xs) =
     (if best_v < x then argmax_from i x (Suc i) xs else argmax_from best_i best_v (Suc i) xs)"

definition argmax_idx :: "real list \<Rightarrow> nat" where
  "argmax_idx xs = (case xs of [] \<Rightarrow> 0 | x # r \<Rightarrow> argmax_from 0 x 1 r)"

definition argmax :: "real list \<Rightarrow> error + nat" where
  "argmax xs = (if xs = [] then Inl ValueError else Inr (argmax_idx xs))"

text \<open>Running a fallible function over a list, stopping at the first exception.\<close>

fun map_err :: "('a \<Rightarrow> error + 'b) \<Rightarrow> 'a list \<Rightarrow> error + 'b list" where
  "map_err f [] = Inr []"
| "map_err f (x # xs) =
     (case f x of
        Inl e \<Rightarrow> Inl e
      | Inr y \<Rightarrow> (case map_err f xs of Inl e \<Rightarrow> Inl e | Inr ys \<Rightarrow> Inr (y # ys)))"

text \<open>\<^verbatim>\<open>np.argmax(rows, axis=1)\<close>.\<close>

definition argmax_rows :: "real list list \<Rightarrow> error + nat list" where
  "argmax_rows rows = map_err argmax rows"

text \<open>
  \<^verbatim>\<open>exp_vals = np.exp(row - np.max(row)); exp_vals / np.sum(exp_vals)\<close> on one row.
\<close>

definition softmax :: "numpy \<Rightarrow> real list \<Rightarrow> real list" where
  "softmax np row =
     (let exp_vals = map (\<lambda>x. np_exp np (x - Max (set row))) row
      in map (\<lambda>e. e / sum_list exp_vals) exp_vals)"

text \<open>\<^verbatim>\<open>if min_val < 0:\<close> softmax along axis 1, else the rows as they are.\<close>

definition normalize_rows :: "numpy \<Rightarrow> real \<Rightarrow> real list list \<Rightarrow> real list list" where
  "normalize_rows np min_val rows = (if min_val < 0 then map (softmax np) rows else rows)"

subsection \<open>Indexing arrays\<close>

text \<open>
  \<^verbatim>\<open>a[0]\<close>: the first slice along axis 0; IndexError when the array has no axis
  or axis 0 is empty.
\<close>

definition index0 :: "ndarray \<Rightarrow> error + ndarray" where
  "index0 a =
     (case shape a of
        [] \<Rightarrow> Inl IndexError
      | n # rest \<Rightarrow>
          if n = 0 then Inl IndexError
          else Inr \<lparr>shape = rest, data = take (prod_list rest) (data a)\<rparr>)"

text \<open>The rows of an array of rank 2.\<close>

definition rows2 :: "ndarray \<Rightarrow> real list list" where
  "rows2 a = rows_of (shape a ! 0) (shape a ! 1) (data a)"

subsection \<open>Tokenizer format (model.onnx, captcha.onnx)\<close>

definition eos_id :: nat where
  "eos_id = 0"

definition charset_captcha_onnx :: string where
  "charset_captcha_onnx = ''0123456789abcdefghijklmnopqrstuvwxyzABCDEFGHIJKLMNOPQRSTUVWXYZ''"

definition charset_digits_first :: string where
  "charset_digits_first = ''0123456789abcdefghijklmnopqrstuvwxyzABCDEFGHIJKLMNOPQRSTUVWXYZ$''"

definition charset_63 :: string where
  "charset_63 = ''abcdefghijklmnopqrstuvwxyzABCDEFGHIJKLMNOPQRSTUVWXYZ0123456789$''"

text \<open>
  The variables that the tokenizer branch sets before its loop. \<open>charset_start\<close> and
  \<open>charset_end\<close> exist in the captcha.onnx branch only and \<open>charset_size\<close> in the other
  branch only; the field that the source leaves undefined is 0 here and is never read.
\<close>

record tokenizer =
  captcha :: bool
  charset_start :: nat
  charset_end :: nat
  charset_size :: nat
  unk_id :: nat
  bos_id :: nat
  pad_id :: nat
  charset :: string

definition tokenizer_setup :: "string \<Rightarrow> tokenizer" where
  "tokenizer_setup model_filename =
     (if contains (lower model_filename) ''captcha.onnx'' then
        (let charset_start = 1;
             charset_end = length charset_captcha_onnx;
             unk_id = charset_end + 1;
             bos_id = unk_id + 1;
             pad_id = bos_id + 1
         in \<lparr>captcha = True, charset_start = charset_start, charset_end = charset_end,
              charset_size = 0, unk_id = unk_id, bos_id = bos_id, pad_id = pad_id,
              charset = charset_captcha_onnx\<rparr>)
      else
        (let charset_size = 95 - 4;
             unk_id = charset_size + 1;
             bos_id = charset_size + 2;
             pad_id = charset_size + 3;
             charset =
               (if charset_size \<ge> length charset_digits_first then charset_digits_first
                else if charset_size \<ge> length charset_63 then charset_63
                else take charset_size charset_digits_first)
         in \<lparr>captcha = False, charset_start = 0, charset_end = 0,
              charset_size = charset_size, unk_id = unk_id, bos_id = bos_id, pad_id = pad_id,
              charset = charset\<rparr>))"

text \<open>
  What one pass of the loop body appends to \<^verbatim>\<open>text\<close> for an index that is not the
  end-of-sequence index.
\<close>

definition tokenizer_emit :: "tokenizer \<Rightarrow> nat \<Rightarrow> string" where
  "tokenizer_emit tk idx =
     (if captcha tk then
        (if idx = unk_id tk \<or> idx = bos_id tk \<or> idx = pad_id tk then []
         else if charset_start tk \<le> idx \<and> idx \<le> charset_end tk
           then [charset tk ! (idx - charset_start tk)]
         else if idx > pad_id tk then []
         else [])
      else
        (if idx = unk_id tk \<or> idx = bos_id tk \<or> idx = pad_id tk then []
         else if 1 \<le> idx \<and> idx \<le> length (charset tk) then [charset tk ! (idx - 1)]
         else if 1 \<le> charset_size tk then
           (let ascii_code = 32 + idx - 1
            in if 32 \<le> ascii_code \<and> ascii_code \<le> 126
               then (if ascii_code \<noteq> 32 then [char_of ascii_code] else [])
               else [])
         else []))"

text \<open>\<^verbatim>\<open>for idx in char_indices\<close>, with its \<^verbatim>\<open>break\<close> at the end-of-sequence index.\<close>

fun tokenizer_loop :: "tokenizer \<Rightarrow> nat list \<Rightarrow> string \<Rightarrow> string" where
  "tokenizer_loop tk [] text = text"
| "tokenizer_loop tk (idx # rest) text =
     (if idx = eos_id then text
      else tokenizer_loop tk rest (text @ tokenizer_emit tk idx))"

text \<open>
  \<^verbatim>\<open>reshaped = output[0]\<close>, softmax when there are logits, and
  \<^verbatim>\<open>char_indices = np.argmax(reshaped, axis=1)\<close>.
\<close>

definition tokenizer_indices :: "numpy \<Rightarrow> real \<Rightarrow> ndarray \<Rightarrow> error + nat list" where
  "tokenizer_indices np min_val output =
     (case index0 output of
        Inl e \<Rightarrow> Inl e
      | Inr reshaped \<Rightarrow> argmax_rows (normalize_rows np min_val (rows2 reshaped)))"

definition decode_tokenizer :: "numpy \<Rightarrow> real \<Rightarrow> ndarray \<Rightarrow> string \<Rightarrow> error + string" where
  "decode_tokenizer np min_val output model_filename =
     (case tokenizer_indices np min_val output of
        Inl e \<Rightarrow> Inl e
      | Inr char_indices \<Rightarrow>
          Inr (tokenizer_loop (tokenizer_setup model_filename) char_indices []))"

subsection \<open>CRNN format: collapsing decoding over candidate mappings\<close>

record mapping =
  mapping_name :: string
  blank_id :: nat
  digit_start :: nat
  digit_end :: nat
  letter_start :: nat
  letter_end :: nat
  digit_char :: char
  letter_char :: char
  letter2 :: "(nat \<times> nat \<times> char) option"

definition mk_mapping ::
  "string \<Rightarrow> nat \<Rightarrow> nat \<Rightarrow> nat \<Rightarrow> nat \<Rightarrow> nat \<Rightarrow> char \<Rightarrow> char \<Rightarrow> (nat \<times> nat \<times> char) option \<Rightarrow> mapping" where
  "mk_mapping name b ds de ls le dc lc l2 =
     \<lparr>mapping_name = name, blank_id = b, digit_start = ds, digit_end = de,
      letter_start = ls, letter_end = le, digit_char = dc, letter_char = lc, letter2 = l2\<rparr>"

definition mappings_config :: "mapping list" where
  "mappings_config =
     [mk_mapping ''blank(0), 0-9(1-10), A-Z(11-33)'' 0 1 10 11 33 (CHR ''0'') (CHR ''A'') None,
      mk_mapping ''blank(0), A-Z(1-26), 0-9(27-33)'' 0 27 33 1 26 (CHR ''0'') (CHR ''A'') None,
      mk_mapping ''blank(33), 0-9(0-9), A-Z(10-32)'' 33 0 9 10 32 (CHR ''0'') (CHR ''A'') None,
      mk_mapping ''blank(33), A-Z(0-25), 0-9(26-32)'' 33 26 32 0 25 (CHR ''0'') (CHR ''A'') None,
      mk_mapping ''blank(0), 0-9(1-10), a-z(11-33)'' 0 1 10 11 33 (CHR ''0'') (CHR ''a'') None,
      mk_mapping ''blank(0), a-z(1-26), 0-9(27-33)'' 0 27 33 1 26 (CHR ''0'') (CHR ''a'') None,
      mk_mapping ''blank(0), 0-9(1-10), A-Z(11-26), a-z(27-33)'' 0 1 10 11 26 (CHR ''0'') (CHR ''A'')
        (Some (27, 33, CHR ''a''))]"

definition in_digits :: "mapping \<Rightarrow> nat \<Rightarrow> bool" where
  "in_digits m idx = (digit_start m \<le> idx \<and> idx \<le> digit_end m)"

definition in_letters :: "mapping \<Rightarrow> nat \<Rightarrow> bool" where
  "in_letters m idx = (letter_start m \<le> idx \<and> idx \<le> letter_end m)"

text \<open>
  \<^verbatim>\<open>letter2_start and letter2_start <= idx <= letter2_end\<close>: false when the mapping has
  no second letter range (\<^verbatim>\<open>None\<close>) and when that range starts at 0.
\<close>

definition in_letters2 :: "mapping \<Rightarrow> nat \<Rightarrow> bool" where
  "in_letters2 m idx =
     (case letter2 m of
        None \<Rightarrow> False
      | Some (letter2_start, letter2_end, letter2_char) \<Rightarrow>
          letter2_start \<noteq> 0 \<and> letter2_start \<le> idx \<and> idx \<le> letter2_end)"

text \<open>\<^verbatim>\<open>chr(ord(base) + idx - start)\<close>.\<close>

definition chr_offset :: "char \<Rightarrow> nat \<Rightarrow> nat \<Rightarrow> char" where
  "chr_offset base idx start = char_of ((of_char base :: nat) + idx - start)"

text \<open>What the collapsing loop appends for an index that is neither blank nor a repeat.\<close>

definition ctc_emit :: "mapping \<Rightarrow> nat \<Rightarrow> string" where
  "ctc_emit m idx =
     (if in_digits m idx then [chr_offset (digit_char m) idx (digit_start m)]
      else if in_letters m idx then [chr_offset (letter_char m) idx (letter_start m)]
      else if in_letters2 m idx then
        (case letter2 m of
           Some (letter2_start, letter2_end, letter2_char) \<Rightarrow>
             [chr_offset letter2_char idx letter2_start]
         | None \<Rightarrow> [])
      else [])"

text \<open>
  The collapsing loop, shared by the argmax pass and the top-2 pass:
  \<^verbatim>\<open>prev_idx\<close> starts at -1, a blank resets it, a repeat of \<^verbatim>\<open>prev_idx\<close> is skipped.
\<close>

fun ctc_loop :: "mapping \<Rightarrow> nat list \<Rightarrow> int \<Rightarrow> string \<Rightarrow> string" where
  "ctc_loop m [] prev_idx text = text"
| "ctc_loop m (idx # rest) prev_idx text =
     (if idx = blank_id m then ctc_loop m rest (- 1) text
      else if int idx = prev_idx then ctc_loop m rest prev_idx text
      else ctc_loop m rest (int idx) (text @ ctc_emit m idx))"

definition ctc_greedy :: "mapping \<Rightarrow> nat list \<Rightarrow> string" where
  "ctc_greedy m char_indices = ctc_loop m char_indices (- 1) []"

text \<open>
  \<^verbatim>\<open>top2 = np.argsort(row)[-2:][::-1]; idx1, idx2 = int(top2[0]), int(top2[1])\<close>:
  IndexError when the row has fewer than two entries.
\<close>

definition top2 :: "numpy \<Rightarrow> real list \<Rightarrow> error + nat \<times> nat" where
  "top2 np row =
     (case rev (np_argsort np row) of
        idx1 # idx2 # _ \<Rightarrow> Inr (idx1, idx2)
      | _ \<Rightarrow> Inl IndexError)"

text \<open>
  The top-2 pass: the same loop over the pairs \<open>(idx1, idx2)\<close>, with the choice between
  them written as in the source.
\<close>

fun ctc_top2_loop :: "mapping \<Rightarrow> (nat \<times> nat) list \<Rightarrow> int \<Rightarrow> string \<Rightarrow> string" where
  "ctc_top2_loop m [] prev_idx text_top2 = text_top2"
| "ctc_top2_loop m ((idx1, idx2) # rest) prev_idx text_top2 =
     (let idx =
            (if in_digits m idx2 \<and>
                (in_letters m idx1 \<or> in_letters2 m idx1 \<or> idx1 = blank_id m)
             then idx2 else idx1)
      in if idx = blank_id m then ctc_top2_loop m rest (- 1) text_top2
         else if int idx = prev_idx then ctc_top2_loop m rest prev_idx text_top2
         else ctc_top2_loop m rest (int idx) (text_top2 @ ctc_emit m idx))"

definition ctc_top2 :: "mapping \<Rightarrow> (nat \<times> nat) list \<Rightarrow> string" where
  "ctc_top2 m pairs = ctc_top2_loop m pairs (- 1) []"

text \<open>The list \<^verbatim>\<open>results\<close>: for each mapping its argmax text, then its top-2 text.\<close>

definition crnn_results :: "nat list \<Rightarrow> (nat \<times> nat) list \<Rightarrow> (string \<times> string) list" where
  "crnn_results char_indices pairs =
     concat (map (\<lambda>m. [(mapping_name m, ctc_greedy m char_indices),
                        (mapping_name m @ '' (top-2)'', ctc_top2 m pairs)]) mappings_config)"

text \<open>\<^verbatim>\<open>if expected_text:\<close> a string that is given and not empty.\<close>

fun truthy :: "string option \<Rightarrow> bool" where
  "truthy None = False"
| "truthy (Some s) = (s \<noteq> [])"

text \<open>The second selection loop: it keeps the first longest all-digit text of length 4 or more.\<close>

definition prefer_digits :: "string \<Rightarrow> string \<Rightarrow> string" where
  "prefer_digits best_text text =
     (if text \<noteq> [] \<and> isdigit text \<and> length text \<ge> 4 then
        (if best_text = [] \<or> (\<not> isdigit best_text \<or> length text > length best_text)
         then text else best_text)
      else best_text)"

definition crnn_select :: "string option \<Rightarrow> (string \<times> string) list \<Rightarrow> error + string" where
  "crnn_select expected_text results =
     (let best_text =
            (if truthy expected_text then
               (case find (\<lambda>(name, text). Some text = expected_text) results of
                  Some (name, text) \<Rightarrow> text
                | None \<Rightarrow> [])
             else []);
          best_text =
            (if best_text = [] then fold (\<lambda>(name, text) b. prefer_digits b text) results []
             else best_text)
      in if best_text = [] then
           (case results of [] \<Rightarrow> Inl IndexError | (name, text) # _ \<Rightarrow> Inr text)
         else Inr best_text)"

text \<open>
  The rows that the CRNN branch decodes, and the top-2 pair of each row.
  For shape \<open>(s0, s1, s2)\<close> with \<open>s0 > s1\<close> the rows are \<^verbatim>\<open>output[:, 0, :]\<close>; otherwise
  \<^verbatim>\<open>output[0]\<close> when \<open>s1 = 1\<close>. In the remaining case the source keeps the array of rank 3:
  \<^verbatim>\<open>int(idx)\<close> then raises TypeError unless \<open>s2 = 1\<close>, where the argmax runs over axis 1
  and every top-2 pair is \<open>(0, 0)\<close>.
\<close>

definition crnn_indices ::
  "numpy \<Rightarrow> real \<Rightarrow> ndarray \<Rightarrow> error + nat list \<times> (nat \<times> nat) list" where
  "crnn_indices np min_val output =
     (case shape output of
        [s0, s1, s2] \<Rightarrow>
          if s0 > s1 then
            (if s1 = 0 then Inl IndexError
             else
               (let reshaped = normalize_rows np min_val
                       (map (\<lambda>i. take s2 (drop (i * s1 * s2) (data output))) [0..<s0])
                in case argmax_rows reshaped of
                     Inl e \<Rightarrow> Inl e
                   | Inr char_indices \<Rightarrow>
                       (case map_err (top2 np) reshaped of
                          Inl e \<Rightarrow> Inl e
                        | Inr pairs \<Rightarrow> Inr (char_indices, pairs))))
          else if s1 = 1 then
            (case index0 output of
               Inl e \<Rightarrow> Inl e
             | Inr out0 \<Rightarrow>
                 (let reshaped = normalize_rows np min_val (rows2 out0)
                  in case argmax_rows reshaped of
                       Inl e \<Rightarrow> Inl e
                     | Inr char_indices \<Rightarrow>
                         (case map_err (top2 np) reshaped of
                            Inl e \<Rightarrow> Inl e
                          | Inr pairs \<Rightarrow> Inr (char_indices, pairs))))
          else if s2 = 1 then
            (case argmax_rows (normalize_rows np min_val (rows_of s0 s1 (data output))) of
               Inl e \<Rightarrow> Inl e
             | Inr char_indices \<Rightarrow> Inr (char_indices, replicate s0 (0, 0)))
          else Inl TypeError
      | _ \<Rightarrow> Inl IndexError)"

definition decode_crnn ::
  "numpy \<Rightarrow> real \<Rightarrow> ndarray \<Rightarrow> string option \<Rightarrow> error + string" where
  "decode_crnn np min_val output expected_text =
     (case crnn_indices np min_val output of
        Inl e \<Rightarrow> Inl e
      | Inr (char_indices, pairs) \<Rightarrow> crnn_select expected_text (crnn_results char_indices pairs))"

subsection \<open>Flat format of the v1 to v8 models\<close>

definition is_v1_v8_model :: "string \<Rightarrow> bool" where
  "is_v1_v8_model model_filename =
     list_ex (\<lambda>i. contains (lower model_filename) (''captcha_model_v'' @ [i] @ ''.onnx''))
       ''12345678''"

text \<open>The slice \<^verbatim>\<open>xs[start:stop]\<close>.\<close>

definition py_slice :: "nat \<Rightarrow> nat \<Rightarrow> 'a list \<Rightarrow> 'a list" where
  "py_slice start stop xs = drop start (take stop xs)"

text \<open>
  The argmax of segment \<open>idx\<close>. On an empty segment \<^verbatim>\<open>np.max\<close> (logits) and
  \<^verbatim>\<open>np.argmax\<close> (probabilities) raise ValueError.
\<close>

definition segment_argmax :: "numpy \<Rightarrow> real \<Rightarrow> real list \<Rightarrow> nat \<Rightarrow> nat \<Rightarrow> error + nat" where
  "segment_argmax np min_val flat_output cls_dim idx =
     (let start = cls_dim * idx;
          stop = cls_dim * (idx + 1);
          segment = py_slice start stop flat_output
      in if min_val < 0 then
           (if segment = [] then Inl ValueError else argmax (softmax np segment))
         else argmax segment)"

text \<open>\<^verbatim>\<open>for idx in range(seq_len)\<close>: one character per segment whose argmax is in range.\<close>

fun flat_loop ::
  "numpy \<Rightarrow> real \<Rightarrow> real list \<Rightarrow> nat \<Rightarrow> string \<Rightarrow> nat list \<Rightarrow> string \<Rightarrow> error + string" where
  "flat_loop np min_val flat_output cls_dim char_set [] text = Inr text"
| "flat_loop np min_val flat_output cls_dim char_set (idx # rest) text =
     (case segment_argmax np min_val flat_output cls_dim idx of
        Inl e \<Rightarrow> Inl e
      | Inr char_idx \<Rightarrow>
          flat_loop np min_val flat_output cls_dim char_set rest
            (if char_idx < cls_dim then text @ [char_set ! char_idx] else text))"

subsection \<open>Inferring the layout from the number of elements\<close>

text \<open>
  The inner loop over \<^verbatim>\<open>CHAR_SETS.items()\<close>: the first entry whose size, times
  \<open>test_seq\<close>, is the number of elements.
\<close>

definition match_char_set :: "nat \<Rightarrow> nat \<Rightarrow> (string \<times> string) option" where
  "match_char_set total_size test_seq =
     find (\<lambda>(test_key, test_set). total_size = test_seq * length test_set) CHAR_SETS"

text \<open>
  The outer loop \<^verbatim>\<open>for test_seq in [4, 5, 6, 7, 8]\<close>, which occurs three times in the
  source. Its state is the variable \<^verbatim>\<open>seq_len\<close> and the entry of the last match;
  \<^verbatim>\<open>if seq_len: break\<close> reads \<^verbatim>\<open>seq_len\<close>, which raises UnboundLocalError when
  nothing has assigned it yet.
\<close>

fun infer_loop ::
  "nat \<Rightarrow> nat list \<Rightarrow> nat pyvar \<Rightarrow> (string \<times> string) option
     \<Rightarrow> error + nat pyvar \<times> (string \<times> string) option" where
  "infer_loop total_size [] seq_len found = Inr (seq_len, found)"
| "infer_loop total_size (test_seq # rest) seq_len found =
     (case match_char_set total_size test_seq of
        Some kv \<Rightarrow>
          (if test_seq \<noteq> 0 then Inr (Bound test_seq, Some kv)
           else infer_loop total_size rest (Bound test_seq) (Some kv))
      | None \<Rightarrow>
          (case seq_len of
             Unbound \<Rightarrow> Inl UnboundLocalError
           | PyNone \<Rightarrow> infer_loop total_size rest seq_len found
           | Bound n \<Rightarrow>
               if n \<noteq> 0 then Inr (seq_len, found)
               else infer_loop total_size rest seq_len found))"

text \<open>\<^verbatim>\<open>if not seq_len\<close> after the loop.\<close>

fun not_var :: "nat pyvar \<Rightarrow> error + bool" where
  "not_var Unbound = Inl UnboundLocalError"
| "not_var PyNone = Inr True"
| "not_var (Bound n) = Inr (n = 0)"

definition reshape_argmax :: "nat \<Rightarrow> nat \<Rightarrow> real list \<Rightarrow> error + nat list" where
  "reshape_argmax seq_len num_classes flat =
     (case reshape seq_len num_classes flat of
        Inl e \<Rightarrow> Inl e
      | Inr reshaped \<Rightarrow> argmax_rows reshaped)"

definition reshape_softmax_argmax ::
  "numpy \<Rightarrow> nat \<Rightarrow> nat \<Rightarrow> real list \<Rightarrow> error + nat list" where
  "reshape_softmax_argmax np seq_len num_classes flat =
     (case reshape seq_len num_classes flat of
        Inl e \<Rightarrow> Inl e
      | Inr reshaped \<Rightarrow> argmax_rows (map (softmax np) reshaped))"

text \<open>
  \<^verbatim>\<open>for seq_len in [4, 5, 6, 7, 8, 9, 10]\<close>: the first length that divides the number
  of elements.
\<close>

definition find_factor :: "nat \<Rightarrow> nat option" where
  "find_factor total_size =
     find (\<lambda>seq_len. total_size div seq_len > 0 \<and> total_size = seq_len * (total_size div seq_len))
       [4, 5, 6, 7, 8, 9, 10]"

definition argmax_single :: "real list \<Rightarrow> error + nat list" where
  "argmax_single flat = (case argmax flat of Inl e \<Rightarrow> Inl e | Inr i \<Rightarrow> Inr [i])"

text \<open>The branches for rank 1 and for rank 0 or above 3.\<close>

definition factor_indices :: "real list \<Rightarrow> error + nat list" where
  "factor_indices flat =
     (case find_factor (length flat) of
        Some seq_len \<Rightarrow> reshape_argmax seq_len (length flat div seq_len) flat
      | None \<Rightarrow> argmax_single flat)"

text \<open>\<^verbatim>\<open>if char_indices is None\<close> in the branch for a single row.\<close>

definition already_indices :: "real list \<Rightarrow> error + nat list" where
  "already_indices flat_output =
     (if list_all (\<lambda>x. x = of_int (round x)) flat_output \<and> list_all (\<lambda>x. x \<ge> 0) flat_output
      then Inr (map (\<lambda>x. nat \<lfloor>x\<rfloor>) flat_output)
      else argmax_single flat_output)"

text \<open>A single row of logits (\<^verbatim>\<open>min_val < 0\<close>) of a model that is not v1 to v8.\<close>

definition single_row_logits :: "numpy \<Rightarrow> real list \<Rightarrow> model_config \<Rightarrow> error + nat list" where
  "single_row_logits np flat_output cfg =
     (if cfg = Special then Inl UnboundLocalError
      else if config_truthy cfg then
        (case cfg of
           Config seq_len char_set_key \<Rightarrow>
             (case map_of CHAR_SETS char_set_key of
                None \<Rightarrow> Inl KeyError
              | Some char_set \<Rightarrow> reshape_softmax_argmax np seq_len (length char_set) flat_output)
         | _ \<Rightarrow> Inl KeyError)
      else
        (case infer_loop (length flat_output) [4, 5, 6, 7, 8] Unbound None of
           Inl e \<Rightarrow> Inl e
         | Inr (seq_len, found) \<Rightarrow>
             (case not_var seq_len of
                Inl e \<Rightarrow> Inl e
              | Inr True \<Rightarrow> reshape_softmax_argmax np 6 63 flat_output
              | Inr False \<Rightarrow>
                  (case (seq_len, found) of
                     (Bound n, Some (test_key, test_set)) \<Rightarrow>
                       reshape_softmax_argmax np n (length test_set) flat_output
                   | _ \<Rightarrow> Inl UnboundLocalError))))"

text \<open>A single row of probabilities (\<^verbatim>\<open>min_val >= 0\<close>) of a model that is not v1 to v8.\<close>

definition single_row_probs :: "real list \<Rightarrow> model_config \<Rightarrow> error + nat list" where
  "single_row_probs flat_output cfg =
     (if config_truthy cfg then
        (case cfg of
           Config seq_len char_set_key \<Rightarrow>
             (case map_of CHAR_SETS char_set_key of
                None \<Rightarrow> Inl KeyError
              | Some char_set \<Rightarrow> reshape_argmax seq_len (length char_set) flat_output)
         | _ \<Rightarrow> Inl KeyError)
      else
        (case infer_loop (length flat_output) [4, 5, 6, 7, 8] Unbound None of
           Inl e \<Rightarrow> Inl e
         | Inr (seq_len, found) \<Rightarrow>
             (case not_var seq_len of
                Inl e \<Rightarrow> Inl e
              | Inr True \<Rightarrow>
                  (case find_factor (length flat_output) of
                     Some n \<Rightarrow> reshape_argmax n (length flat_output div n) flat_output
                   | None \<Rightarrow> already_indices flat_output)
              | Inr False \<Rightarrow>
                  (case (seq_len, found) of
                     (Bound n, Some (test_key, test_set)) \<Rightarrow>
                       reshape_argmax n (length test_set) flat_output
                   | _ \<Rightarrow> already_indices flat_output))))"

text \<open>
  What the shape-driven part of the function yields: the text, where the flat branch
  returns at once, or the indices \<^verbatim>\<open>char_indices\<close> for the final decoding.
\<close>

datatype outcome = Return string | Indices "nat list"

definition indices_outcome :: "error + nat list \<Rightarrow> error + outcome" where
  "indices_outcome r = (case r of Inl e \<Rightarrow> Inl e | Inr char_indices \<Rightarrow> Inr (Indices char_indices))"

text \<open>Rank 2 with a single row: \<^verbatim>\<open>flat_output = output[0]\<close>.\<close>

definition single_row :: "numpy \<Rightarrow> real \<Rightarrow> real list \<Rightarrow> string \<Rightarrow> error + outcome" where
  "single_row np min_val flat_output model_filename =
     (let cfg = get_model_config model_filename in
      if is_v1_v8_model model_filename \<and> config_truthy cfg then
        (case cfg of
           Config seq_len char_set_key \<Rightarrow>
             (case map_of CHAR_SETS char_set_key of
                None \<Rightarrow> Inl KeyError
              | Some char_set \<Rightarrow>
                  (case flat_loop np min_val flat_output (length char_set) char_set [0..<seq_len] [] of
                     Inl e \<Rightarrow> Inl e
                   | Inr text \<Rightarrow> Inr (Return text)))
         | _ \<Rightarrow> Inl KeyError)
      else if min_val < 0 then indices_outcome (single_row_logits np flat_output cfg)
      else indices_outcome (single_row_probs flat_output cfg))"

text \<open>The dispatch on the rank of the output, after the tokenizer and CRNN branches.\<close>

definition generic_indices :: "numpy \<Rightarrow> real \<Rightarrow> ndarray \<Rightarrow> string \<Rightarrow> error + outcome" where
  "generic_indices np min_val output model_filename =
     (if length (shape output) = 3 then
        (case index0 output of
           Inl e \<Rightarrow> Inl e
         | Inr reshaped \<Rightarrow> indices_outcome (argmax_rows (normalize_rows np min_val (rows2 reshaped))))
      else if length (shape output) = 2 then
        (if shape output ! 0 = 1 then
           (case index0 output of
              Inl e \<Rightarrow> Inl e
            | Inr row \<Rightarrow> single_row np min_val (data row) model_filename)
         else indices_outcome (argmax_rows (rows2 output)))
      else if length (shape output) = 1 then indices_outcome (factor_indices (data output))
      else indices_outcome (factor_indices (data output)))"

subsection \<open>Choosing the character set\<close>

text \<open>
  The block after \<^verbatim>\<open>seq_len_config, char_set_key = self.get_model_config(...)\<close>:
  the configured character set, else the first one of the inference loop, else the
  default \<^verbatim>\<open>"63"\<close>. In the first case the source also sets \<^verbatim>\<open>seq_len\<close>, which nothing
  reads afterwards.
\<close>

definition resolve_char_set :: "model_config \<Rightarrow> nat \<Rightarrow> error + string" where
  "resolve_char_set cfg total_size =
     (let char_set_key = (case cfg of Special \<Rightarrow> Some ''63'' | Config n k \<Rightarrow> Some k | NoConfig \<Rightarrow> None);
          seq_len = (case cfg of Config n k \<Rightarrow> Bound n | _ \<Rightarrow> PyNone)
      in case (if truthy char_set_key then map_of CHAR_SETS (the char_set_key) else None) of
           Some char_set \<Rightarrow> Inr char_set
         | None \<Rightarrow>
             (case infer_loop total_size [4, 5, 6, 7, 8] seq_len None of
                Inl e \<Rightarrow> Inl e
              | Inr (seq_len, found) \<Rightarrow>
                  (case not_var seq_len of
                     Inl e \<Rightarrow> Inl e
                   | Inr True \<Rightarrow>
                       (case map_of CHAR_SETS ''63'' of
                          None \<Rightarrow> Inl KeyError
                        | Some char_set \<Rightarrow> Inr char_set)
                   | Inr False \<Rightarrow>
                       (case found of
                          Some (test_char_set_key, test_char_set) \<Rightarrow> Inr test_char_set
                        | None \<Rightarrow> Inl UnboundLocalError))))"

subsection \<open>Decoding the indices, with and without an expected text\<close>

text \<open>Mapping the indices through a character set; an index out of range gives nothing.\<close>

definition decode_variant :: "string \<Rightarrow> nat list \<Rightarrow> string" where
  "decode_variant variant_charset char_indices =
     concat (map (\<lambda>idx. if idx < length variant_charset then [variant_charset ! idx] else [])
       char_indices)"

text \<open>\<^verbatim>\<open>d.get(key, default)\<close>.\<close>

definition dict_get :: "('k \<times> 'v) list \<Rightarrow> 'k \<Rightarrow> 'v \<Rightarrow> 'v" where
  "dict_get d key dflt = (case map_of d key of Some v \<Rightarrow> v | None \<Rightarrow> dflt)"

definition charset_variants :: "string \<Rightarrow> string list" where
  "charset_variants char_set =
     (if length char_set = 63 then
        [dict_get CHAR_SETS ''63'' ''abcdefghijklmnopqrstuvwxyzABCDEFGHIJKLMNOPQRSTUVWXYZ0123456789$'',
         dict_get CHAR_SETS ''63_digits_first''
           ''0123456789abcdefghijklmnopqrstuvwxyzABCDEFGHIJKLMNOPQRSTUVWXYZ$'',
         ''ABCDEFGHIJKLMNOPQRSTUVWXYZabcdefghijklmnopqrstuvwxyz0123456789$'',
         ''abcdefghijklmnopqrstuvwxyzABCDEFGHIJKLMNOPQRSTUVWXYZ0123456789$'']
      else if length char_set = 37 then
        [char_set,
         dict_get CHAR_SETS ''37_lowercase_digits_first'' ''0123456789abcdefghijklmnopqrstuvwxyz$'',
         dict_get CHAR_SETS ''37_uppercase_digits_first'' ''0123456789ABCDEFGHIJKLMNOPQRSTUVWXYZ$'',
         dict_get CHAR_SETS ''37_uppercase'' ''ABCDEFGHIJKLMNOPQRSTUVWXYZ0123456789$'',
         dict_get CHAR_SETS ''37_lowercase'' ''abcdefghijklmnopqrstuvwxyz0123456789$'']
      else [char_set])"

text \<open>
  The score of one decoded text against the expected text: 1000 for equality, else 10 for
  each position (up to the shorter length) that agrees, plus 5 for equal lengths.
\<close>

definition match_score :: "string \<Rightarrow> string \<Rightarrow> int" where
  "match_score variant_text expected_text =
     (if variant_text = expected_text then 1000
      else
        10 * int (length (filter (\<lambda>(a, b). a = b) (zip variant_text expected_text))) +
        (if length variant_text = length expected_text then 5 else 0))"

text \<open>\<^verbatim>\<open>if match_score > best_match_score\<close>: a later text replaces the best one only
  with a strictly higher score.\<close>

definition select_step :: "string \<Rightarrow> string \<Rightarrow> string \<times> int \<Rightarrow> string \<times> int" where
  "select_step expected_text variant_text best =
     (if match_score variant_text expected_text > snd best
      then (variant_text, match_score variant_text expected_text) else best)"

text \<open>The loop over the texts of the variants, from \<^verbatim>\<open>best_text = ""\<close> and score -1.\<close>

definition select_best :: "string \<Rightarrow> string list \<Rightarrow> string \<times> int" where
  "select_best expected_text texts = fold (select_step expected_text) texts ([], - 1)"

definition decode_indices :: "string option \<Rightarrow> nat list \<Rightarrow> string \<Rightarrow> string" where
  "decode_indices expected_text char_indices char_set =
     (let standard = decode_variant char_set char_indices in
      if truthy expected_text \<and> (length char_set = 63 \<or> length char_set = 37) then
        (let best = select_best (the expected_text)
                      (map (\<lambda>variant_charset. decode_variant variant_charset char_indices)
                         (charset_variants char_set))
         in if snd best \<ge> 0 then fst best else standard)
      else standard)"

subsection \<open>The whole function\<close>

text \<open>
  \<^verbatim>\<open>total_size\<close> in the block that chooses the character set: the length of
  \<^verbatim>\<open>flat_output\<close> for rank 2 (the single row \<^verbatim>\<open>output[0]\<close>, or all elements), else the
  number of elements.
\<close>

definition total_size_of :: "ndarray \<Rightarrow> nat" where
  "total_size_of output =
     (if length (shape output) = 2 \<and> shape output ! 0 = 1
      then length (take (prod_list (tl (shape output))) (data output))
      else length (data output))"

text \<open>
  \<open>output\<close> is \<^verbatim>\<open>outputs[0]\<close>; \<^verbatim>\<open>model_info\<close> is not read by the source.
  \<^verbatim>\<open>np.max(char_indices)\<close> raises ValueError when there are no indices.
\<close>

definition postprocess_output ::
  "numpy \<Rightarrow> ndarray \<Rightarrow> string \<Rightarrow> string option \<Rightarrow> error + string" where
  "postprocess_output np output model_filename expected_text =
     (case np_min (data output) of
        Inl e \<Rightarrow> Inl e
      | Inr min_val \<Rightarrow>
          if get_model_config model_filename = Special \<and> length (shape output) = 3 then
            decode_tokenizer np min_val output model_filename
          else if contains (lower model_filename) ''crnn'' \<and> length (shape output) = 3 then
            decode_crnn np min_val output expected_text
          else
            (case generic_indices np min_val output model_filename of
               Inl e \<Rightarrow> Inl e
             | Inr (Return text) \<Rightarrow> Inr text
             | Inr (Indices char_indices) \<Rightarrow>
                 if char_indices = [] then Inl ValueError
                 else
                   (case resolve_char_set (get_model_config model_filename) (total_size_of output) of
                      Inl e \<Rightarrow> Inl e
                    | Inr char_set \<Rightarrow> Inr (decode_indices expected_text char_indices char_set))))"

section \<open>Statements of the specification, as definitions\<close>

text \<open>
  The index that the top-2 pass decodes at one time step, first as the specification words
  it (the digit is preferred when the top-1 index is a letter), then with the blank case
  that the source has.
\<close>

definition top2_choice_claimed :: "mapping \<Rightarrow> nat \<Rightarrow> nat \<Rightarrow> nat" where
  "top2_choice_claimed m idx1 idx2 =
     (if (in_letters m idx1 \<or> in_letters2 m idx1) \<and> in_digits m idx2 then idx2 else idx1)"

definition top2_choice :: "mapping \<Rightarrow> nat \<Rightarrow> nat \<Rightarrow> nat" where
  "top2_choice m idx1 idx2 =
     (if in_digits m idx2 \<and> (in_letters m idx1 \<or> in_letters2 m idx1 \<or> idx1 = blank_id m)
      then idx2 else idx1)"

text \<open>
  An instance of the numpy parameters, for evaluating the model on concrete arrays: the
  real exponential and a stable sort of the indices by their scores.
\<close>

definition stable_argsort :: "real list \<Rightarrow> nat list" where
  "stable_argsort row = sort_key (\<lambda>i. row ! i) [0..<length row]"

definition numpy_reference :: numpy where
  "numpy_reference = \<lparr>np_exp = exp, np_argsort = stable_argsort\<rparr>"

text \<open>\<^verbatim>\<open>s.index(c)\<close>: the position of the first occurrence of a character in a string.\<close>

definition index_of :: "'a list \<Rightarrow> 'a \<Rightarrow> nat" where
  "index_of xs c = length (takeWhile (\<lambda>x. x \<noteq> c) xs)"

text \<open>The first character set of \<^verbatim>\<open>CHAR_SETS\<close> that has a given size.\<close>

definition first_char_set_of_size :: "nat \<Rightarrow> string option" where
  "first_char_set_of_size m =
     map_option snd (find (\<lambda>(key, char_set). length char_set = m) CHAR_SETS)"

text \<open>
  The texts among which the CRNN branch chooses when it is given no expected text: those
  made of digits only, with four characters or more; and the first longest text of a list.
\<close>

definition digit_candidates :: "string list \<Rightarrow> string list" where
  "digit_candidates texts = filter (\<lambda>s. isdigit s \<and> 4 \<le> length s) texts"

definition first_longest :: "string list \<Rightarrow> string \<Rightarrow> bool" where
  "first_longest xs r =
     (\<exists>i<length xs. r = xs ! i \<and> (\<forall>j<length xs. length (xs ! j) \<le> length (xs ! i)) \<and>
        (\<forall>j<i. length (xs ! j) < length (xs ! i)))"

text \<open>
  A row of 34 scores, all different: the score of class \<open>j\<close> is \<open>j\<close>, except the score 100
  of class \<open>p\<close>.
\<close>

definition peak_row :: "nat \<Rightarrow> real list" where
  "peak_row p = map (\<lambda>j. if j = p then 100 else real j) [0..<34]"

section \<open>Properties\<close>

subsection \<open>The collapsing rule\<close>

lemma ctc_loop_text: "ctc_loop m xs p (t @ u) = t @ ctc_loop m xs p u"
  by (induction xs arbitrary: p u) auto

lemma ctc_loop_blank:
  "ctc_loop m (xs @ blank_id m # ys) p acc = ctc_loop m ys (- 1) (ctc_loop m xs p acc)"
  by (induction xs arbitrary: p acc) auto

lemma ctc_loop_repeat:
  "ctc_loop m (xs @ i # i # ys) p acc = ctc_loop m (xs @ i # ys) p acc"
  by (induction xs arbitrary: p acc) auto

lemma ctc_digits_low_example:
  "ctc_greedy (mappings_config ! 2) [33, 3, 3, 33, 3, 7] = ''337''"
  by code_simp

text \<open>
  Claim C3, as the source has it. For every index sequence and every mapping, the greedy
  collapse merges a repeat of an index into one occurrence; a blank emits nothing and
  resets the repeat tracking, so the text of a sequence with a blank in it is the text
  of the part before the blank followed by the text of the part after it, and an index on
  both sides of a blank is emitted twice. Under the third mapping (blank 33, digits at
  0 to 9) the path \<open>[blank, 3, 3, blank, 3, 7]\<close> collapses to \<open>337\<close>: the two runs of 3
  are separated by a blank and are both kept.
\<close>

theorem ctc_greedy_collapse:
  "ctc_greedy m (xs @ [i, i] @ ys) = ctc_greedy m (xs @ [i] @ ys) \<and>
   ctc_greedy m (xs @ [blank_id m] @ ys) = ctc_greedy m xs @ ctc_greedy m ys \<and>
   ctc_greedy m [i] = (if i = blank_id m then [] else ctc_emit m i) \<and>
   ctc_greedy m [i, blank_id m, i] = ctc_greedy m [i] @ ctc_greedy m [i] \<and>
   ctc_greedy (mappings_config ! 2) [33, 3, 3, 33, 3, 7] = ''337''"
proof -
  have a: "ctc_greedy m (xs @ [i, i] @ ys) = ctc_greedy m (xs @ [i] @ ys)"
    using ctc_loop_repeat [of m xs i ys "- 1" "[]"] by (simp add: ctc_greedy_def)
  have b: "ctc_greedy m (us @ [blank_id m] @ vs) = ctc_greedy m us @ ctc_greedy m vs" for us vs
    using ctc_loop_blank [of m us vs "- 1" "[]"]
      ctc_loop_text [of m vs "- 1" "ctc_loop m us (- 1) []" "[]"]
    by (simp add: ctc_greedy_def)
  have c: "ctc_greedy m [i] = (if i = blank_id m then [] else ctc_emit m i)"
    by (simp add: ctc_greedy_def)
  have d: "ctc_greedy m [i, blank_id m, i] = ctc_greedy m [i] @ ctc_greedy m [i]"
    using b [of "[i]" "[i]"] by simp
  show ?thesis using a b [of xs ys] c d ctc_digits_low_example by blast
qed

theorem ctc_greedy_collapse_witness:
  "ctc_greedy (mappings_config ! 2) ([3] @ [3, 3] @ [7]) =
     ctc_greedy (mappings_config ! 2) ([3] @ [3] @ [7]) \<and>
   ctc_greedy (mappings_config ! 2) [3, blank_id (mappings_config ! 2), 3] =
     ctc_greedy (mappings_config ! 2) [3] @ ctc_greedy (mappings_config ! 2) [3]"
  using ctc_greedy_collapse [of "mappings_config ! 2" "[3]" 3 "[7]"] by blast

text \<open>
  Claim C3 as stated fails in its example: the path does not collapse to \<open>37\<close>.
\<close>

theorem ctc_example_counterexample:
  "ctc_greedy (mappings_config ! 2) [33, 3, 3, 33, 3, 7] \<noteq> ''37''"
  by code_simp

subsection \<open>The top-2 pass\<close>

lemma ctc_top2_loop_choice:
  "ctc_top2_loop m pairs p acc =
   ctc_loop m (map (\<lambda>(idx1, idx2). top2_choice m idx1 idx2) pairs) p acc"
  by (induction m pairs p acc rule: ctc_top2_loop.induct) (auto simp: top2_choice_def Let_def)

text \<open>
  Claim C5, as the source has it. The top-2 pass is the collapsing rule applied to the
  indices chosen by \<open>top2_choice\<close>: at each time step the top-2 index when it lies in the
  digit range and the top-1 index lies in a letter range or is the blank index, and the
  top-1 index in every other case.
\<close>

theorem top2_choice_rule:
  "ctc_top2 m pairs = ctc_greedy m (map (\<lambda>(idx1, idx2). top2_choice m idx1 idx2) pairs)"
  by (simp add: ctc_top2_def ctc_greedy_def ctc_top2_loop_choice)

theorem top2_choice_rule_witness:
  "ctc_top2 (mappings_config ! 0) [(11, 1), (0, 2), (3, 12)] = ''012''"
  using top2_choice_rule [of "mappings_config ! 0" "[(11, 1), (0, 2), (3, 12)]"]
  by (simp add: ctc_top2_def) code_simp

text \<open>
  Claim C5 as stated fails where the top-1 index is the blank: with blank 0 as top-1 and
  the digit index 1 as top-2, the source decodes the digit, and the rule of the
  specification decodes the blank.
\<close>

theorem top2_blank_counterexample:
  "ctc_top2 (mappings_config ! 0) [(0, 1)] \<noteq>
   ctc_greedy (mappings_config ! 0)
     (map (\<lambda>(idx1, idx2). top2_choice_claimed (mappings_config ! 0) idx1 idx2) [(0, 1)])"
  by code_simp

subsection \<open>The scorer of the charset variants\<close>

lemma match_score_nonneg: "0 \<le> match_score h e"
  by (simp add: match_score_def)

lemma select_best_snoc:
  "select_best e (ts @ [t]) = select_step e t (select_best e ts)"
  by (simp add: select_best_def)

lemma select_best_first_max:
  "texts \<noteq> [] \<Longrightarrow>
   \<exists>i<length texts. select_best e texts = (texts ! i, match_score (texts ! i) e) \<and>
     (\<forall>j<length texts. match_score (texts ! j) e \<le> match_score (texts ! i) e) \<and>
     (\<forall>j<i. match_score (texts ! j) e < match_score (texts ! i) e)"
proof (induction texts rule: rev_nonempty_induct)
  case (single t)
  have "select_best e [t] = (t, match_score t e)"
    using match_score_nonneg [of t e] by (simp add: select_best_def select_step_def)
  then show ?case by simp
next
  case (snoc t ts)
  then obtain i where i: "i < length ts"
      "select_best e ts = (ts ! i, match_score (ts ! i) e)"
      "\<forall>j<length ts. match_score (ts ! j) e \<le> match_score (ts ! i) e"
      "\<forall>j<i. match_score (ts ! j) e < match_score (ts ! i) e"
    by blast
  show ?case
  proof (cases "match_score t e > match_score (ts ! i) e")
    case True
    have best: "select_best e (ts @ [t]) = (t, match_score t e)"
      using True i(2) by (simp add: select_best_snoc select_step_def)
    have le: "\<forall>j<length (ts @ [t]). match_score ((ts @ [t]) ! j) e \<le> match_score t e"
      using True i(3) by (fastforce simp: nth_append less_Suc_eq)
    have lt: "\<forall>j<length ts. match_score ((ts @ [t]) ! j) e < match_score t e"
      using True i(3) by (fastforce simp: nth_append)
    show ?thesis
      by (rule exI [of _ "length ts"]) (use best le lt in simp)
  next
    case False
    have best: "select_best e (ts @ [t]) = (ts ! i, match_score (ts ! i) e)"
      using False i(2) by (simp add: select_best_snoc select_step_def)
    have le: "\<forall>j<length (ts @ [t]). match_score ((ts @ [t]) ! j) e \<le> match_score (ts ! i) e"
      using False i(3) by (fastforce simp: nth_append less_Suc_eq)
    have lt: "\<forall>j<i. match_score ((ts @ [t]) ! j) e < match_score (ts ! i) e"
      using i(1,4) by (auto simp: nth_append)
    show ?thesis
      by (rule exI [of _ i]) (use i(1) best le lt in \<open>simp add: nth_append\<close>)
  qed
qed

lemma count_matches:
  "length (filter (\<lambda>(a, b). a = b) (zip h e)) =
   card {i. i < min (length h) (length e) \<and> h ! i = e ! i}"
proof -
  have "{i. i < length (zip h e) \<and> (\<lambda>(a, b). a = b) (zip h e ! i)} =
        {i. i < min (length h) (length e) \<and> h ! i = e ! i}"
    by auto
  then show ?thesis by (simp only: length_filter_conv_card)
qed

lemma count_le: "length (filter P (zip h e)) \<le> length e"
  by (rule order_trans [OF length_filter_le]) simp

lemma match_score_below: "h \<noteq> e \<Longrightarrow> length e < 100 \<Longrightarrow> match_score h e < 1000"
  using count_le [of "\<lambda>(a, b). a = b" h e] by (simp add: match_score_def)

lemma select_best_example: "fst (select_best ''AB13'' [''AB12'', ''A B1'']) = ''AB12''"
  by code_simp

subsection \<open>Arrays and argmax\<close>

lemma length_softmax: "length (softmax np row) = length row"
  by (simp add: softmax_def Let_def)

lemma softmax_eq_Nil: "(softmax np row = []) = (row = [])"
  using length_softmax [of np row] by (metis length_0_conv)

lemma argmax_from_less: "bi < i \<Longrightarrow> argmax_from bi bv i xs < i + length xs"
proof (induction xs arbitrary: bi bv i)
  case Nil
  then show ?case by simp
next
  case (Cons x xs)
  have a: "argmax_from i x (Suc i) xs < Suc i + length xs"
    by (rule Cons.IH) simp
  have b: "argmax_from bi bv (Suc i) xs < Suc i + length xs"
    by (rule Cons.IH) (use Cons.prems in simp)
  show ?case using a b by simp
qed

lemma argmax_idx_less: "xs \<noteq> [] \<Longrightarrow> argmax_idx xs < length xs"
  by (cases xs) (use argmax_from_less [of 0 1] in \<open>auto simp: argmax_idx_def\<close>)

lemma argmax_rows_nonempty:
  "\<forall>r\<in>set rows. r \<noteq> [] \<Longrightarrow> argmax_rows rows = Inr (map argmax_idx rows)"
  unfolding argmax_rows_def by (induction rows) (auto simp: argmax_def)

lemma rows_of_length: "length (rows_of n m xs) = n"
  by (simp add: rows_of_def)

lemma rows_of_row_length:
  assumes "n * m \<le> length xs" "r \<in> set (rows_of n m xs)"
  shows "length r = m"
proof -
  from assms(2) obtain i where i: "i < n" "r = take m (drop (i * m) xs)"
    by (auto simp: rows_of_def)
  have "Suc i * m \<le> n * m" using i(1) by (intro mult_le_mono1) simp
  then have "i * m + m \<le> length xs" using assms(1) by simp
  then show ?thesis using i(2) by simp
qed

lemma normalize_rows_nonempty:
  "\<forall>r\<in>set rows. r \<noteq> [] \<Longrightarrow> \<forall>r\<in>set (normalize_rows np min_val rows). r \<noteq> []"
  by (auto simp: normalize_rows_def softmax_eq_Nil)

lemma length_normalize_rows: "length (normalize_rows np min_val rows) = length rows"
  by (simp add: normalize_rows_def)

lemma np_min_nonempty: "xs \<noteq> [] \<Longrightarrow> \<exists>v. np_min xs = Inr v"
  by (cases xs) (auto simp: np_min_def)

lemma index0_rank3:
  "shape t = [b, p, v] \<Longrightarrow> b \<noteq> 0 \<Longrightarrow>
   index0 t = Inr \<lparr>shape = [p, v], data = take (p * v) (data t)\<rparr>"
  by (simp add: index0_def)

lemma rows2_simp: "rows2 \<lparr>shape = [p, v], data = xs\<rparr> = rows_of p v xs"
  by (simp add: rows2_def)

lemma wf_rank3_pos:
  assumes "shape t = [b, p, v]" "wf_array t" "data t \<noteq> []"
  shows "b \<noteq> 0 \<and> p \<noteq> 0 \<and> v \<noteq> 0 \<and> p * v \<le> length (data t)"
proof -
  have len: "length (data t) = b * (p * v)" using assms(1,2) by (simp add: wf_array_def)
  have "length (data t) \<noteq> 0" using assms(3) by simp
  then have nz: "b * (p * v) \<noteq> 0" using len by simp
  then have pos: "b \<noteq> 0" "p \<noteq> 0" "v \<noteq> 0" by simp_all
  have "1 * (p * v) \<le> b * (p * v)" using pos(1) by (intro mult_le_mono1) simp
  then show ?thesis using pos len by simp
qed

lemma argmax_rows_of:
  assumes "n * m \<le> length xs" "m \<noteq> 0"
  shows "argmax_rows (normalize_rows np min_val (rows_of n m xs)) =
         Inr (map argmax_idx (normalize_rows np min_val (rows_of n m xs)))"
proof -
  have "\<forall>r\<in>set (rows_of n m xs). r \<noteq> []"
  proof
    fix r assume "r \<in> set (rows_of n m xs)"
    then have "length r = m" by (rule rows_of_row_length [OF assms(1)])
    then show "r \<noteq> []" using assms(2) by auto
  qed
  then show ?thesis
    by (intro argmax_rows_nonempty normalize_rows_nonempty)
qed

subsection \<open>The tokenizer format\<close>

lemma tokenizer_loop_concat:
  "tokenizer_loop tk xs acc =
   acc @ concat (map (tokenizer_emit tk) (takeWhile (\<lambda>i. i \<noteq> eos_id) xs))"
  by (induction xs arbitrary: acc) auto

lemma concat_map_filter_emit:
  "concat (map (tokenizer_emit tk) (filter (\<lambda>i. i \<notin> {unk_id tk, bos_id tk, pad_id tk}) xs)) =
   concat (map (tokenizer_emit tk) xs)"
  by (induction xs) (auto simp: tokenizer_emit_def)

lemma tokenizer_setup_ids:
  "captcha (tokenizer_setup fn) \<Longrightarrow>
     pad_id (tokenizer_setup fn) = 65 \<and> charset_end (tokenizer_setup fn) = 62 \<and>
     charset_start (tokenizer_setup fn) = 1"
  "\<not> captcha (tokenizer_setup fn) \<Longrightarrow>
     pad_id (tokenizer_setup fn) = 94 \<and> charset_size (tokenizer_setup fn) = 91 \<and>
     length (charset (tokenizer_setup fn)) = 63"
  by (auto simp: tokenizer_setup_def Let_def charset_captcha_onnx_def charset_digits_first_def
      split: if_splits)

lemma tokenizer_emit_beyond_pad:
  assumes "pad_id (tokenizer_setup fn) < i" "captcha (tokenizer_setup fn) \<or> i \<noteq> 95"
  shows "tokenizer_emit (tokenizer_setup fn) i = []"
proof (cases "captcha (tokenizer_setup fn)")
  case True
  then show ?thesis using assms(1) tokenizer_setup_ids(1) [OF True]
    by (auto simp: tokenizer_emit_def)
next
  case False
  then show ?thesis using assms tokenizer_setup_ids(2) [OF False]
    by (auto simp: tokenizer_emit_def Let_def)
qed

lemma tokenizer_indices_ok:
  assumes "shape t = [b, p, v]" "wf_array t" "data t \<noteq> []"
  shows "tokenizer_indices np min_val t =
         Inr (map argmax_idx (normalize_rows np min_val (rows_of p v (take (p * v) (data t)))))"
proof -
  note pos = wf_rank3_pos [OF assms]
  have i0: "index0 t = Inr \<lparr>shape = [p, v], data = take (p * v) (data t)\<rparr>"
    using index0_rank3 [OF assms(1)] pos by blast
  have "p * v \<le> length (take (p * v) (data t))" using pos by simp
  then have "argmax_rows (normalize_rows np min_val (rows_of p v (take (p * v) (data t)))) =
     Inr (map argmax_idx (normalize_rows np min_val (rows_of p v (take (p * v) (data t)))))"
    using pos by (intro argmax_rows_of) simp_all
  then show ?thesis
    by (simp add: tokenizer_indices_def i0 rows2_simp)
qed

lemma postprocess_tokenizer:
  assumes "get_model_config fn = Special" "shape t = [b, p, v]" "wf_array t"
    "np_min (data t) = Inr min_val"
  shows "postprocess_output np t fn e =
     Inr (tokenizer_loop (tokenizer_setup fn)
       (map argmax_idx (normalize_rows np min_val (rows_of p v (take (p * v) (data t))))) [])"
proof -
  have ne: "data t \<noteq> []" using assms(4) by (auto simp: np_min_def)
  have len3: "length (shape t) = 3" using assms(2) by simp
  show ?thesis
    unfolding postprocess_output_def decode_tokenizer_def
    by (simp only: assms(1,4) len3 tokenizer_indices_ok [OF assms(2,3) ne] sum.case simp_thms
        if_True)
qed

lemma config_captcha_onnx: "get_model_config ''captcha.onnx'' = Special"
  by code_simp

lemma config_model_onnx: "get_model_config ''model.onnx'' = Special"
  by code_simp

text \<open>
  Claim C2. For every tensor of rank 3 under a tokenizer model name, decoding succeeds;
  it takes the argmax index of each position, stops before the first end-of-sequence
  index, and skips every unknown, begin and pad index: the text is made of what the
  remaining indices emit, in order.
\<close>

theorem tokenizer_decoding:
  assumes "get_model_config fn = Special" "shape t = [b, p, v]" "wf_array t" "data t \<noteq> []"
  shows "\<exists>min_val idxs.
           np_min (data t) = Inr min_val \<and>
           tokenizer_indices np min_val t = Inr idxs \<and> length idxs = p \<and>
           postprocess_output np t fn e =
             Inr (concat (map (tokenizer_emit (tokenizer_setup fn))
                    (filter (\<lambda>i. i \<notin> {unk_id (tokenizer_setup fn), bos_id (tokenizer_setup fn),
                                      pad_id (tokenizer_setup fn)})
                       (takeWhile (\<lambda>i. i \<noteq> eos_id) idxs))))"
proof -
  obtain min_val where mv: "np_min (data t) = Inr min_val"
    using np_min_nonempty [OF assms(4)] by blast
  let ?idxs = "map argmax_idx (normalize_rows np min_val (rows_of p v (take (p * v) (data t))))"
  have ti: "tokenizer_indices np min_val t = Inr ?idxs"
    by (rule tokenizer_indices_ok [OF assms(2,3,4)])
  have len: "length ?idxs = p"
    by (simp add: length_normalize_rows rows_of_length)
  have "postprocess_output np t fn e = Inr (tokenizer_loop (tokenizer_setup fn) ?idxs [])"
    by (rule postprocess_tokenizer [OF assms(1,2,3) mv])
  then have "postprocess_output np t fn e =
      Inr (concat (map (tokenizer_emit (tokenizer_setup fn))
             (filter (\<lambda>i. i \<notin> {unk_id (tokenizer_setup fn), bos_id (tokenizer_setup fn),
                                      pad_id (tokenizer_setup fn)})
                (takeWhile (\<lambda>i. i \<noteq> eos_id) ?idxs))))"
    by (simp only: tokenizer_loop_concat concat_map_filter_emit append_Nil)
  then show ?thesis using mv ti len by blast
qed

theorem tokenizer_decoding_witness:
  "get_model_config ''captcha.onnx'' = Special \<and>
   wf_array \<lparr>shape = [1, 3, 3], data = [0, 1, 0, 0, 0, 1, 1, 0, 0]\<rparr> \<and>
   (\<exists>s. postprocess_output numpy_reference
           \<lparr>shape = [1, 3, 3], data = [0, 1, 0, 0, 0, 1, 1, 0, 0]\<rparr> ''captcha.onnx'' None = Inr s)"
proof -
  have wf: "wf_array \<lparr>shape = [1, 3, 3], data = [0, 1, 0, 0, 0, 1, 1, 0, 0]\<rparr>"
    by (simp add: wf_array_def)
  show ?thesis
    using tokenizer_decoding [OF config_captcha_onnx _ wf, of 1 3 3 numpy_reference None]
      config_captcha_onnx wf
    by auto
qed

text \<open>
  Claim C8, as the source has it. An index beyond the pad index emits nothing, and the
  text is the one decoded without that position, under a model name that contains
  \<open>captcha.onnx\<close> (pad index 65); under the other tokenizer model names (pad index 94) the
  same holds for every index beyond the pad index other than 95.
\<close>

theorem beyond_pad_dropped:
  assumes "pad_id (tokenizer_setup fn) < i" "captcha (tokenizer_setup fn) \<or> i \<noteq> 95"
  shows "tokenizer_loop (tokenizer_setup fn) (xs @ [i] @ ys) acc =
         tokenizer_loop (tokenizer_setup fn) (xs @ ys) acc"
proof -
  have ne: "i \<noteq> eos_id" using assms(1) by (simp add: eos_id_def)
  have emit: "tokenizer_emit (tokenizer_setup fn) i = []"
    by (rule tokenizer_emit_beyond_pad [OF assms])
  show ?thesis
  proof (cases "\<forall>x\<in>set xs. x \<noteq> eos_id")
    case True
    then show ?thesis using ne emit by (simp add: tokenizer_loop_concat)
  next
    case False
    then obtain x where "x \<in> set xs" "\<not> x \<noteq> eos_id" by blast
    then have "takeWhile (\<lambda>i. i \<noteq> eos_id) (xs @ zs) = takeWhile (\<lambda>i. i \<noteq> eos_id) xs" for zs
      by (rule takeWhile_append1)
    then show ?thesis by (simp only: tokenizer_loop_concat)
  qed
qed

theorem beyond_pad_dropped_witness:
  "pad_id (tokenizer_setup ''captcha.onnx'') < 70 \<and>
   tokenizer_loop (tokenizer_setup ''captcha.onnx'') ([1] @ [70] @ [2]) [] = ''01'' \<and>
   pad_id (tokenizer_setup ''model.onnx'') < 96 \<and>
   tokenizer_loop (tokenizer_setup ''model.onnx'') ([1] @ [96] @ [2]) [] = ''01''"
proof -
  have a: "pad_id (tokenizer_setup ''captcha.onnx'') < 70" by code_simp
  have a': "captcha (tokenizer_setup ''captcha.onnx'') \<or> (70::nat) \<noteq> 95" by simp
  have b: "pad_id (tokenizer_setup ''model.onnx'') < 96" by code_simp
  have b': "captcha (tokenizer_setup ''model.onnx'') \<or> (96::nat) \<noteq> 95" by simp
  have c: "tokenizer_loop (tokenizer_setup ''captcha.onnx'') ([1] @ [2]) [] = ''01''"
    by code_simp
  have d: "tokenizer_loop (tokenizer_setup ''model.onnx'') ([1] @ [2]) [] = ''01''"
    by code_simp
  show ?thesis
    using beyond_pad_dropped [OF a a', of "[1]" "[2]" "[]"]
      beyond_pad_dropped [OF b b', of "[1]" "[2]" "[]"] a b c d
    by simp
qed

lemma argmax_96: "argmax_idx (replicate 95 0 @ [1]) = 95"
  by code_simp

lemma np_min_96: "np_min (replicate 95 0 @ [1]) = Inr 0"
  by code_simp

text \<open>
  Claim C8 as stated fails for the model name \<open>model.onnx\<close> on a tensor with 96 classes:
  the index 95 lies beyond the pad index 94 and emits the character of code 126.
\<close>

theorem beyond_pad_counterexample:
  "postprocess_output numpy_reference \<lparr>shape = [1, 1, 96], data = replicate 95 0 @ [1]\<rparr>
     ''model.onnx'' None = Inr ''~''"
proof -
  let ?t = "\<lparr>shape = [1, 1, 96], data = replicate 95 0 @ [1]\<rparr>"
  have wf: "wf_array ?t" by (simp add: wf_array_def)
  have "postprocess_output numpy_reference ?t ''model.onnx'' None =
     Inr (tokenizer_loop (tokenizer_setup ''model.onnx'')
       (map argmax_idx
          (normalize_rows numpy_reference 0 (rows_of 1 96 (take (1 * 96) (data ?t))))) [])"
    by (rule postprocess_tokenizer [OF config_model_onnx _ wf]) (simp_all add: np_min_96)
  also have "rows_of 1 96 (take (1 * 96) (data ?t)) = [replicate 95 0 @ [1]]"
    by (simp add: rows_of_def)
  also have "normalize_rows numpy_reference 0 [replicate 95 0 @ [1]] = [replicate 95 0 @ [1]]"
    by (simp add: normalize_rows_def)
  also have "map argmax_idx [replicate 95 0 @ [1]] = [95]"
    by (simp add: argmax_96)
  also have "tokenizer_loop (tokenizer_setup ''model.onnx'') [95] [] = ''~''"
    by code_simp
  finally show ?thesis .
qed

subsection \<open>The flat format\<close>

lemma index_of_nth: "distinct cs \<Longrightarrow> i < length cs \<Longrightarrow> index_of cs (cs ! i) = i"
  unfolding index_of_def
proof (induction cs arbitrary: i)
  case Nil
  then show ?case by simp
next
  case (Cons c cs)
  show ?case
  proof (cases i)
    case 0
    then show ?thesis by simp
  next
    case (Suc j)
    then have "cs ! j \<in> set cs" using Cons.prems by simp
    then have "c \<noteq> cs ! j" using Cons.prems(1) by auto
    then show ?thesis using Suc Cons by simp
  qed
qed

lemma map_err_length: "map_err f xs = Inr ys \<Longrightarrow> length ys = length xs"
  by (induction xs arbitrary: ys) (auto split: sum.splits)

lemma map_err_all: "map_err f xs = Inr ys \<Longrightarrow> \<forall>i<length xs. f (xs ! i) = Inr (ys ! i)"
  by (induction xs arbitrary: ys) (auto split: sum.splits simp: nth_Cons')

lemma map_err_total:
  "\<forall>x\<in>set xs. \<exists>y. f x = Inr y \<Longrightarrow> \<exists>ys. map_err f xs = Inr ys"
  by (induction xs) (auto split: sum.splits)

lemma length_py_slice_le: "length (py_slice (c * i) (c * (i + 1)) xs) \<le> c"
  by (simp add: py_slice_def)

lemma segment_argmax_less:
  assumes "segment_argmax np mv flat cls idx = Inr c"
  shows "c < cls"
proof -
  let ?seg = "py_slice (cls * idx) (cls * (idx + 1)) flat"
  have ne: "?seg \<noteq> []"
    using assms by (auto simp: segment_argmax_def Let_def argmax_def split: if_splits)
  have "c = argmax_idx (softmax np ?seg) \<or> c = argmax_idx ?seg"
    using assms by (auto simp: segment_argmax_def Let_def argmax_def split: if_splits)
  moreover have "argmax_idx (softmax np ?seg) < length ?seg"
    using argmax_idx_less [of "softmax np ?seg"] ne by (simp add: softmax_eq_Nil length_softmax)
  moreover have "argmax_idx ?seg < length ?seg"
    using argmax_idx_less [OF ne] .
  ultimately have "c < length ?seg" by auto
  then show ?thesis using length_py_slice_le [of cls idx flat] by simp
qed

lemma flat_loop_result:
  "flat_loop np mv flat cls cs idxs acc =
     (case map_err (segment_argmax np mv flat cls) idxs of
        Inl e \<Rightarrow> Inl e
      | Inr is \<Rightarrow> Inr (acc @ map (\<lambda>i. cs ! i) is))"
proof (induction idxs arbitrary: acc)
  case Nil
  then show ?case by simp
next
  case (Cons idx idxs)
  show ?case
  proof (cases "segment_argmax np mv flat cls idx")
    case (Inl e)
    then show ?thesis by simp
  next
    case (Inr c)
    then have "c < cls" by (rule segment_argmax_less)
    then show ?thesis using Inr Cons.IH [of "acc @ [cs ! c]"]
      by (simp split: sum.splits)
  qed
qed

lemma segment_argmax_total:
  assumes "length flat = s * cls" "cls \<noteq> 0" "idx < s"
  shows "\<exists>c. segment_argmax np mv flat cls idx = Inr c"
proof -
  have "Suc idx * cls \<le> s * cls" using assms(3) by (intro mult_le_mono1) simp
  then have "cls * idx + cls \<le> length flat" using assms(1) by (simp add: mult.commute)
  then have "length (py_slice (cls * idx) (cls * (idx + 1)) flat) = cls"
    by (simp add: py_slice_def)
  then have "py_slice (cls * idx) (cls * (idx + 1)) flat \<noteq> []" using assms(2) by auto
  then show ?thesis
    by (simp add: segment_argmax_def Let_def argmax_def softmax_eq_Nil)
qed

lemma config_in_table:
  assumes "get_model_config fn = Config s k"
  shows "(s, k) \<in> {(6, ''63''), (6, ''11''), (5, ''63''), (6, ''37_lowercase''),
                    (5, ''37_uppercase''), (4, ''63'')}"
proof -
  from assms obtain v where "map_of MODEL_CONFIGS v = Some (s, k)"
    by (auto simp: get_model_config_def Let_def split: if_splits option.splits)
  then have "(v, s, k) \<in> set MODEL_CONFIGS" by (rule map_of_SomeD)
  then show ?thesis by (auto simp: MODEL_CONFIGS_def)
qed

lemma char_sets_distinct:
  "map_of CHAR_SETS k = Some cs \<Longrightarrow> distinct cs \<and> cs \<noteq> []"
  by (auto simp: CHAR_SETS_def split: if_splits)

lemma config_char_set:
  assumes "get_model_config fn = Config s k"
  shows "s \<noteq> 0 \<and> k \<noteq> [] \<and> (\<exists>cs. map_of CHAR_SETS k = Some cs)"
  using config_in_table [OF assms] by (auto simp: CHAR_SETS_def)

lemma index0_single_row:
  assumes "shape t = [1, n]" "wf_array t"
  shows "index0 t = Inr \<lparr>shape = [n], data = data t\<rparr>"
proof -
  have "length (data t) = n" using assms by (simp add: wf_array_def)
  then show ?thesis using assms(1) by (simp add: index0_def)
qed

lemma generic_single_row:
  assumes "shape t = [1, n]" "wf_array t"
  shows "generic_indices np mv t fn = single_row np mv (data t) fn"
proof -
  have r: "length (shape t) = 2" "length (shape t) \<noteq> 3" "shape t ! 0 = 1"
    using assms(1) by simp_all
  show ?thesis
    unfolding generic_indices_def
    by (simp add: r index0_single_row [OF assms])
qed

lemma not_rank3:
  "length (shape t) \<noteq> 3 \<Longrightarrow>
   postprocess_output np t fn e =
     (case np_min (data t) of
        Inl e \<Rightarrow> Inl e
      | Inr min_val \<Rightarrow>
            (case generic_indices np min_val t fn of
               Inl e \<Rightarrow> Inl e
             | Inr (Return text) \<Rightarrow> Inr text
             | Inr (Indices char_indices) \<Rightarrow>
                 if char_indices = [] then Inl ValueError
                 else
                   (case resolve_char_set (get_model_config fn) (total_size_of t) of
                      Inl e \<Rightarrow> Inl e
                    | Inr char_set \<Rightarrow> Inr (decode_indices e char_indices char_set))))"
  unfolding postprocess_output_def by (simp only: simp_thms if_False)

lemma single_row_flat:
  assumes "is_v1_v8_model fn" "get_model_config fn = Config s k" "map_of CHAR_SETS k = Some cs"
  shows "single_row np mv flat fn =
     (case flat_loop np mv flat (length cs) cs [0..<s] [] of
        Inl e \<Rightarrow> Inl e
      | Inr text \<Rightarrow> Inr (Return text))"
proof -
  have tr: "config_truthy (Config s k)" using config_char_set [OF assms(2)] by simp
  show ?thesis
    unfolding single_row_def Let_def
    by (simp only: assms tr simp_thms if_True model_config.case option.case)
qed

lemma postprocess_flat:
  assumes "is_v1_v8_model fn" "get_model_config fn = Config s k" "map_of CHAR_SETS k = Some cs"
    "shape t = [1, n]" "wf_array t" "np_min (data t) = Inr mv"
  shows "postprocess_output np t fn e =
     (case map_err (segment_argmax np mv (data t) (length cs)) [0..<s] of
        Inl e \<Rightarrow> Inl e
      | Inr is \<Rightarrow> Inr (map (\<lambda>i. cs ! i) is))"
proof -
  have r: "length (shape t) \<noteq> 3" using assms(4) by simp
  show ?thesis
    by (simp add: not_rank3 [OF r] assms(6) generic_single_row [OF assms(4,5)]
        single_row_flat [OF assms(1,2,3)] flat_loop_result split: sum.splits)
qed

lemma flat_indices_total:
  assumes "get_model_config fn = Config s k" "map_of CHAR_SETS k = Some cs"
    "length flat = s * length cs"
  shows "\<exists>is. map_err (segment_argmax np mv flat (length cs)) [0..<s] = Inr is \<and> length is = s"
proof -
  have cs: "length cs \<noteq> 0" using char_sets_distinct [OF assms(2)] by simp
  have "\<forall>idx\<in>set [0..<s]. \<exists>c. segment_argmax np mv flat (length cs) idx = Inr c"
    using segment_argmax_total [OF assms(3) cs] by simp
  then obtain "is" where "map_err (segment_argmax np mv flat (length cs)) [0..<s] = Inr is"
    using map_err_total by blast
  then show ?thesis using map_err_length by fastforce
qed

lemma flat_data_nonempty:
  assumes "get_model_config fn = Config s k" "map_of CHAR_SETS k = Some cs"
    "shape t = [1, s * length cs]" "wf_array t"
  shows "data t \<noteq> []"
proof -
  have "s \<noteq> 0" "length cs \<noteq> 0"
    using config_char_set [OF assms(1)] char_sets_distinct [OF assms(2)] by simp_all
  then have "s * length cs \<noteq> 0" by simp
  then have "length (data t) \<noteq> 0" using assms(3,4) by (simp add: wf_array_def)
  then show ?thesis by auto
qed

text \<open>
  Claim C10. For every model name of a v1 to v8 model with a configured sequence length and
  character set, and every single row of sequence length times character set size
  scores, the flat decoding succeeds and emits one character for each segment: the
  text has the configured sequence length. (The argmax of a segment is below the size of
  the character set, \<open>segment_argmax_less\<close>, so the guard of the loop never skips.)
\<close>

theorem flat_segmented_length:
  assumes "is_v1_v8_model fn" "get_model_config fn = Config s k" "map_of CHAR_SETS k = Some cs"
    "shape t = [1, s * length cs]" "wf_array t"
  shows "\<exists>text. postprocess_output np t fn e = Inr text \<and> length text = s"
proof -
  obtain mv where mv: "np_min (data t) = Inr mv"
    using np_min_nonempty [OF flat_data_nonempty [OF assms(2,3,4,5)]] by blast
  have len: "length (data t) = s * length cs" using assms(4,5) by (simp add: wf_array_def)
  obtain "is" where "is": "map_err (segment_argmax np mv (data t) (length cs)) [0..<s] = Inr is"
      "length is = s"
    using flat_indices_total [OF assms(2,3) len] by blast
  show ?thesis
    using postprocess_flat [OF assms(1,2,3,4,5) mv, of np e] "is" by simp
qed

theorem flat_segmented_length_witness:
  "is_v1_v8_model ''captcha_model_v2.onnx'' \<and>
   get_model_config ''captcha_model_v2.onnx'' = Config 6 ''11'' \<and>
   (\<exists>text. postprocess_output numpy_reference \<lparr>shape = [1, 66], data = replicate 66 0\<rparr>
             ''captcha_model_v2.onnx'' None = Inr text \<and> length text = 6)"
proof -
  have a: "is_v1_v8_model ''captcha_model_v2.onnx''" by code_simp
  have b: "get_model_config ''captcha_model_v2.onnx'' = Config 6 ''11''" by code_simp
  have c: "map_of CHAR_SETS ''11'' = Some ''0123456789$''" by code_simp
  have d: "shape \<lparr>shape = [1, 66], data = replicate 66 0\<rparr> = [1, 6 * length ''0123456789$'']"
    by simp
  have e: "wf_array \<lparr>shape = [1, 66], data = replicate 66 0\<rparr>"
    by (simp add: wf_array_def)
  show ?thesis
    using flat_segmented_length [OF a b c d e, of numpy_reference None] a b by simp
qed

subsection \<open>Tensors that are reshaped by their number of elements\<close>

lemma generic_other_rank:
  assumes "length (shape t) \<noteq> 2" "length (shape t) \<noteq> 3"
  shows "generic_indices np mv t fn = indices_outcome (factor_indices (data t))"
  unfolding generic_indices_def using assms by simp

lemma total_size_other_rank:
  "length (shape t) \<noteq> 2 \<Longrightarrow> total_size_of t = length (data t)"
  by (simp add: total_size_of_def)

lemma postprocess_other_rank:
  assumes "length (shape t) \<noteq> 2" "length (shape t) \<noteq> 3" "data t \<noteq> []"
    "factor_indices (data t) = Inr ci" "ci \<noteq> []"
    "resolve_char_set (get_model_config fn) (length (data t)) = Inr cs"
  shows "postprocess_output np t fn e = Inr (decode_indices e ci cs)"
proof -
  obtain mv where mv: "np_min (data t) = Inr mv"
    using np_min_nonempty [OF assms(3)] by blast
  show ?thesis
    by (simp add: not_rank3 [OF assms(2)] mv generic_other_rank [OF assms(1,2)] assms(4,5,6)
        indices_outcome_def total_size_other_rank [OF assms(1)])
qed

lemma find_factor_None:
  assumes "find_factor n = None" "q \<in> set [4, 5, 6, 7, 8, 9, 10]" "n \<noteq> 0"
  shows "n \<noteq> q * m"
proof
  assume eq: "n = q * m"
  have q: "q \<noteq> 0" using assms(2) by auto
  have d: "n div q = m" using eq q by simp
  have m: "0 < m" using eq assms(3) by (cases m) simp_all
  have "\<not> (0 < n div q \<and> n = q * (n div q))"
    using assms(1,2) unfolding find_factor_def find_None_iff by blast
  then show False using d m eq by simp
qed

lemma match_char_set_None:
  assumes "find_factor n = None" "n \<noteq> 0" "q \<in> set [4, 5, 6, 7, 8]"
  shows "match_char_set n q = None"
proof -
  have "q \<in> set [4, 5, 6, 7, 8, 9, 10]" using assms(3) by auto
  then have "n \<noteq> q * m" for m by (rule find_factor_None [OF assms(1) _ assms(2)])
  then show ?thesis by (auto simp: match_char_set_def find_None_iff)
qed

lemma resolve_default:
  assumes "find_factor n = None" "n \<noteq> 0"
  shows "resolve_char_set NoConfig n = Inr charset_63"
proof -
  have m: "match_char_set n 4 = None" "match_char_set n 5 = None" "match_char_set n 6 = None"
      "match_char_set n 7 = None" "match_char_set n 8 = None"
    by (rule match_char_set_None [OF assms], simp)+
  show ?thesis
    by (simp add: resolve_char_set_def m CHAR_SETS_def charset_63_def)
qed

lemma postprocess_default:
  assumes "length (shape t) \<noteq> 2" "length (shape t) \<noteq> 3" "data t \<noteq> []"
    "get_model_config fn = NoConfig" "find_factor (length (data t)) = None"
  shows "postprocess_output np t fn e = Inr (decode_indices e [argmax_idx (data t)] charset_63)"
proof -
  have fi: "factor_indices (data t) = Inr [argmax_idx (data t)]"
    using assms(3,5) by (simp add: factor_indices_def argmax_single_def argmax_def)
  have n: "length (data t) \<noteq> 0" using assms(3) by simp
  show ?thesis
    by (rule postprocess_other_rank [OF assms(1,2,3) fi])
       (simp_all add: assms(4) resolve_default [OF assms(5) n])
qed

text \<open>
  Claim C1, as the source has it. For every tensor of a rank other than 2 and 3 under a
  model name without configuration, whose number of elements is not a multiple of any
  sequence length from 4 to 10, the call does not fail: it takes the argmax of the whole
  tensor as the only index and decodes it with the default character set \<open>63\<close>.
\<close>

theorem default_decoding:
  assumes "length (shape t) \<noteq> 2" "length (shape t) \<noteq> 3" "wf_array t" "data t \<noteq> []"
    "get_model_config fn = NoConfig" "find_factor (length (data t)) = None"
  shows "postprocess_output np t fn e = Inr (decode_indices e [argmax_idx (data t)] charset_63)"
  by (rule postprocess_default [OF assms(1,2,4,5,6)])

lemma config_empty_name: "get_model_config '''' = NoConfig"
  by code_simp

theorem default_decoding_witness:
  "wf_array \<lparr>shape = [11], data = replicate 10 0 @ [1]\<rparr> \<and>
   find_factor (length (replicate 10 (0::real) @ [1])) = None \<and>
   postprocess_output numpy_reference \<lparr>shape = [11], data = replicate 10 0 @ [1]\<rparr> '''' None =
     Inr ''k''"
proof -
  let ?t = "\<lparr>shape = [11], data = replicate 10 0 @ [1]\<rparr>"
  have wf: "wf_array ?t" by (simp add: wf_array_def)
  have ff: "find_factor (length (data ?t)) = None" by (simp add: find_factor_def)
  have am: "argmax_idx (data ?t) = 10" by (simp add: argmax_idx_def eval_nat_numeral)
  have dec: "decode_indices None [10] charset_63 = ''k''" by code_simp
  show ?thesis
    using default_decoding [of ?t "''''" numpy_reference None, OF _ _ wf _ config_empty_name ff]
      wf ff am dec
    by simp
qed

text \<open>
  Claim C1 as stated fails: a vector of three scores under the empty model name matches
  no format and has no factorization, and the call returns a text.
\<close>

theorem default_decoding_counterexample:
  "get_model_config '''' = NoConfig \<and> find_factor 3 = None \<and>
   postprocess_output numpy_reference \<lparr>shape = [3], data = [1/10, 7/10, 2/10]\<rparr> '''' None = Inr ''b''"
proof -
  let ?t = "\<lparr>shape = [3], data = [1/10, 7/10, 2/10]\<rparr>"
  have ff: "find_factor (length (data ?t)) = None" by (simp add: find_factor_def)
  have "postprocess_output numpy_reference ?t '''' None =
        Inr (decode_indices None [argmax_idx (data ?t)] charset_63)"
    by (rule postprocess_default [OF _ _ _ config_empty_name ff]) simp_all
  also have "argmax_idx (data ?t) = 1" by (simp add: argmax_idx_def)
  also have "decode_indices None [1] charset_63 = ''b''" by code_simp
  finally have "postprocess_output numpy_reference ?t '''' None = Inr ''b''" .
  moreover have "find_factor 3 = None" by code_simp
  ultimately show ?thesis using config_empty_name by blast
qed

lemma factor_reshape:
  assumes "find_factor (length xs) = Some s" "length xs = s * m" "m \<noteq> 0" "s \<noteq> 0"
  shows "factor_indices xs = Inr (map argmax_idx (rows_of s m xs))"
proof -
  have d: "length xs div s = m" using assms(2,4) by simp
  have "\<forall>r\<in>set (rows_of s m xs). r \<noteq> []"
  proof
    fix r assume "r \<in> set (rows_of s m xs)"
    then have "length r = m" using rows_of_row_length [of s m xs r] assms(2) by simp
    then show "r \<noteq> []" using assms(3) by auto
  qed
  then have "argmax_rows (rows_of s m xs) = Inr (map argmax_idx (rows_of s m xs))"
    by (rule argmax_rows_nonempty)
  moreover have "factor_indices xs = reshape_argmax s m xs"
    unfolding factor_indices_def by (simp only: assms(1) option.case d)
  ultimately show ?thesis
    by (simp add: reshape_argmax_def reshape_def assms(2))
qed

lemma postprocess_factor:
  assumes "length (shape t) \<noteq> 2" "length (shape t) \<noteq> 3"
    "find_factor (length (data t)) = Some s" "length (data t) = s * m" "m \<noteq> 0" "s \<noteq> 0"
    "resolve_char_set (get_model_config fn) (length (data t)) = Inr cs"
  shows "postprocess_output np t fn e =
         Inr (decode_indices e (map argmax_idx (rows_of s m (data t))) cs)"
proof -
  have "length (data t) \<noteq> 0" using assms(4,5,6) by simp
  then have ne: "data t \<noteq> []" by auto
  have fi: "factor_indices (data t) = Inr (map argmax_idx (rows_of s m (data t)))"
    by (rule factor_reshape [OF assms(3,4,5,6)])
  have ci: "map argmax_idx (rows_of s m (data t)) \<noteq> []"
    using assms(6) by (simp add: rows_of_def)
  show ?thesis
    by (rule postprocess_other_rank [OF assms(1,2) ne fi ci assms(7)])
qed

lemma known_378:
  "find_factor 378 = Some 6 \<and> resolve_char_set NoConfig 378 = Inr charset_63 \<and>
   first_char_set_of_size 63 = Some charset_63"
  by code_simp

lemma known_66:
  "find_factor 66 = Some 6 \<and> resolve_char_set NoConfig 66 = Inr ''0123456789$'' \<and>
   first_char_set_of_size 11 = Some ''0123456789$''"
  by code_simp

lemma known_315:
  "find_factor 315 = Some 5 \<and> resolve_char_set NoConfig 315 = Inr charset_63"
  by code_simp

lemma known_222:
  "find_factor 222 = Some 6 \<and>
   resolve_char_set NoConfig 222 = Inr ''ABCDEFGHIJKLMNOPQRSTUVWXYZ0123456789$'' \<and>
   first_char_set_of_size 37 = Some ''ABCDEFGHIJKLMNOPQRSTUVWXYZ0123456789$''"
  by code_simp

lemma known_185:
  "find_factor 185 = Some 5 \<and>
   resolve_char_set NoConfig 185 = Inr ''ABCDEFGHIJKLMNOPQRSTUVWXYZ0123456789$''"
  by code_simp

lemma known_252:
  "find_factor 252 = Some 4 \<and> resolve_char_set NoConfig 252 = Inr charset_63"
  by code_simp

lemma known_table:
  assumes "(v, s, k) \<in> set MODEL_CONFIGS" "map_of CHAR_SETS k = Some cs"
  shows "\<exists>cs'. first_char_set_of_size (length cs) = Some cs' \<and> s \<noteq> 0 \<and> length cs \<noteq> 0 \<and>
           find_factor (s * length cs) = Some s \<and>
           resolve_char_set NoConfig (s * length cs) = Inr cs'"
proof -
  have "(s, length cs) \<in> {(6, 63), (6, 11), (5, 63), (6, 37), (5, 37), (4, 63)}"
    using assms by (auto simp: MODEL_CONFIGS_def CHAR_SETS_def)
  then consider "s = 6 \<and> length cs = 63" | "s = 6 \<and> length cs = 11" | "s = 5 \<and> length cs = 63"
    | "s = 6 \<and> length cs = 37" | "s = 5 \<and> length cs = 37" | "s = 4 \<and> length cs = 63"
    by auto
  then show ?thesis
  proof cases
    case 1 then show ?thesis using known_378 by simp
  next
    case 2 then show ?thesis using known_66 by simp
  next
    case 3 then show ?thesis using known_315 known_378 by simp
  next
    case 4 then show ?thesis using known_222 by simp
  next
    case 5 then show ?thesis using known_185 known_222 by simp
  next
    case 6 then show ?thesis using known_252 known_378 by simp
  qed
qed

lemma np_min_zeros: "np_min (replicate (Suc n) 0) = Inr 0"
  by (induction n) (simp_all add: np_min_def)

subsection \<open>The CRNN format without an expected text\<close>

lemma first_longest_mem: "first_longest xs r \<Longrightarrow> r \<in> set xs"
  by (auto simp: first_longest_def)

lemma first_longest_single: "first_longest [t] t"
  by (simp add: first_longest_def)

lemma first_longest_snoc_longer:
  assumes "first_longest xs b" "length b < length t"
  shows "first_longest (xs @ [t]) t"
proof -
  from assms(1) obtain i where i: "i < length xs" "b = xs ! i"
      "\<forall>j<length xs. length (xs ! j) \<le> length (xs ! i)"
    by (auto simp: first_longest_def)
  have lt: "\<forall>j<length xs. length ((xs @ [t]) ! j) < length t"
    using i(2,3) assms(2) by (fastforce simp: nth_append)
  have le: "\<forall>j<length (xs @ [t]). length ((xs @ [t]) ! j) \<le> length t"
    using lt by (auto simp: nth_append less_Suc_eq intro: less_imp_le)
  show ?thesis
    unfolding first_longest_def
    by (rule exI [of _ "length xs"]) (use lt le in simp)
qed

lemma first_longest_snoc_keep:
  assumes "first_longest xs b" "length t \<le> length b"
  shows "first_longest (xs @ [t]) b"
proof -
  from assms(1) obtain i where i: "i < length xs" "b = xs ! i"
      "\<forall>j<length xs. length (xs ! j) \<le> length (xs ! i)"
      "\<forall>j<i. length (xs ! j) < length (xs ! i)"
    by (auto simp: first_longest_def)
  have le: "\<forall>j<length (xs @ [t]). length ((xs @ [t]) ! j) \<le> length (xs ! i)"
    using i(2,3) assms(2) by (fastforce simp: nth_append less_Suc_eq)
  have lt: "\<forall>j<i. length ((xs @ [t]) ! j) < length (xs ! i)"
    using i(1,4) by (auto simp: nth_append)
  show ?thesis
    unfolding first_longest_def
    by (rule exI [of _ i]) (use i(1,2) le lt in \<open>simp add: nth_append\<close>)
qed

lemma prefer_digits_fold:
  "(digit_candidates texts = [] \<and> fold (\<lambda>t b. prefer_digits b t) texts [] = []) \<or>
   (digit_candidates texts \<noteq> [] \<and>
    first_longest (digit_candidates texts) (fold (\<lambda>t b. prefer_digits b t) texts []))"
proof (induction texts rule: rev_induct)
  case Nil
  then show ?case by (simp add: digit_candidates_def)
next
  case (snoc t ts)
  let ?b = "fold (\<lambda>t b. prefer_digits b t) ts []"
  have step: "fold (\<lambda>t b. prefer_digits b t) (ts @ [t]) [] = prefer_digits ?b t" by simp
  show ?case
  proof (cases "isdigit t \<and> 4 \<le> length t")
    case False
    then have "digit_candidates (ts @ [t]) = digit_candidates ts"
      by (simp add: digit_candidates_def)
    moreover have "prefer_digits ?b t = ?b" using False by (auto simp: prefer_digits_def)
    ultimately show ?thesis using snoc step by simp
  next
    case True
    then have cands: "digit_candidates (ts @ [t]) = digit_candidates ts @ [t]"
      by (simp add: digit_candidates_def)
    have tne: "t \<noteq> []" using True by (simp add: isdigit_def)
    show ?thesis
    proof (cases "digit_candidates ts = []")
      case True
      then have "?b = []" using snoc by simp
      then have "prefer_digits ?b t = t" using \<open>isdigit t \<and> 4 \<le> length t\<close> tne
        by (simp add: prefer_digits_def)
      then show ?thesis using cands True step first_longest_single by simp
    next
      case False
      then have fl: "first_longest (digit_candidates ts) ?b" using snoc by simp
      then have "?b \<in> set (digit_candidates ts)" by (rule first_longest_mem)
      then have b: "isdigit ?b" "?b \<noteq> []" by (auto simp: digit_candidates_def isdigit_def)
      show ?thesis
      proof (cases "length ?b < length t")
        case True
        then have "prefer_digits ?b t = t" using \<open>isdigit t \<and> 4 \<le> length t\<close> tne
          by (simp add: prefer_digits_def)
        then show ?thesis
          using cands step first_longest_snoc_longer [OF fl True] by simp
      next
        case False
        then have "prefer_digits ?b t = ?b" using b by (simp add: prefer_digits_def)
        then show ?thesis
          using cands step first_longest_snoc_keep [OF fl, of t] False by simp
      qed
    qed
  qed
qed

lemma crnn_results_first:
  "\<exists>name rest. crnn_results ci pairs = (name, ctc_greedy (mappings_config ! 0) ci) # rest"
  by (simp add: crnn_results_def mappings_config_def)

lemma crnn_select_no_reference:
  assumes "\<not> truthy e"
  shows "\<exists>r. crnn_select e (crnn_results ci pairs) = Inr r \<and>
     (if digit_candidates (map snd (crnn_results ci pairs)) = []
      then r = ctc_greedy (mappings_config ! 0) ci
      else first_longest (digit_candidates (map snd (crnn_results ci pairs))) r)"
proof -
  let ?results = "crnn_results ci pairs"
  let ?b = "fold (\<lambda>t b. prefer_digits b t) (map snd ?results) []"
  have f: "fold (\<lambda>(name, text) b. prefer_digits b text) ?results [] = ?b"
    by (simp add: fold_map comp_def case_prod_unfold)
  obtain name rest where first: "?results = (name, ctc_greedy (mappings_config ! 0) ci) # rest"
    using crnn_results_first by blast
  have sel: "crnn_select e ?results =
      (if ?b = [] then Inr (ctc_greedy (mappings_config ! 0) ci) else Inr ?b)"
    unfolding crnn_select_def Let_def f using assms by (simp add: first)
  show ?thesis
  proof (cases "digit_candidates (map snd ?results) = []")
    case True
    then have "?b = []" using prefer_digits_fold [of "map snd ?results"] by simp
    then show ?thesis using sel True by simp
  next
    case False
    then have fl: "first_longest (digit_candidates (map snd ?results)) ?b"
      using prefer_digits_fold [of "map snd ?results"] by simp
    then have "?b \<in> set (digit_candidates (map snd ?results))" by (rule first_longest_mem)
    then have "?b \<noteq> []" by (auto simp: digit_candidates_def isdigit_def)
    then show ?thesis using sel False fl by simp
  qed
qed

lemma crnn_time_major:
  assumes "shape t = [T, 1, C]" "1 < T" "C \<noteq> 0" "wf_array t"
  shows "crnn_indices np mv t =
     (case map_err (top2 np) (normalize_rows np mv (rows_of T C (data t))) of
        Inl e \<Rightarrow> Inl e
      | Inr pairs \<Rightarrow> Inr (map argmax_idx (normalize_rows np mv (rows_of T C (data t))), pairs))"
proof -
  have rows: "map (\<lambda>i. take C (drop (i * 1 * C) (data t))) [0..<T] = rows_of T C (data t)"
    by (simp add: rows_of_def)
  have "T * C \<le> length (data t)" using assms(1,4) by (simp add: wf_array_def)
  then have am: "argmax_rows (normalize_rows np mv (rows_of T C (data t))) =
        Inr (map argmax_idx (normalize_rows np mv (rows_of T C (data t))))"
    using assms(3) by (rule argmax_rows_of)
  have gt: "(1::nat) < T" "(1::nat) \<noteq> 0" using assms(2) by simp_all
  show ?thesis
    unfolding crnn_indices_def assms(1) list.case Let_def rows
    by (simp only: gt am if_True if_False sum.case)
qed

lemma top2_total:
  assumes "length (np_argsort np row) = length row" "2 \<le> length row"
  shows "\<exists>a b. top2 np row = Inr (a, b)"
proof -
  have "2 \<le> length (rev (np_argsort np row))" using assms by simp
  then obtain a b rest where "rev (np_argsort np row) = a # b # rest"
    by (cases "rev (np_argsort np row)" rule: list.exhaust)
       (auto simp: Suc_le_eq neq_Nil_conv)
  then show ?thesis by (simp add: top2_def)
qed

lemma postprocess_crnn:
  assumes "contains (lower fn) ''crnn''" "get_model_config fn \<noteq> Special"
    "length (shape t) = 3" "np_min (data t) = Inr mv"
  shows "postprocess_output np t fn e = decode_crnn np mv t e"
  unfolding postprocess_output_def
  by (simp only: assms simp_thms if_True if_False sum.case)

lemma crnn_indices_total:
  assumes "shape t = [T, 1, C]" "1 < T" "2 \<le> C" "wf_array t"
    "\<forall>row. length (np_argsort np row) = length row"
  shows "\<exists>ci pairs. crnn_indices np mv t = Inr (ci, pairs) \<and> length ci = T"
proof -
  let ?rows = "normalize_rows np mv (rows_of T C (data t))"
  have c: "C \<noteq> 0" using assms(3) by simp
  have "T * C \<le> length (data t)" using assms(1,4) by (simp add: wf_array_def)
  then have len: "\<forall>r\<in>set (rows_of T C (data t)). length r = C"
    using rows_of_row_length [of T C "data t"] by blast
  have "\<forall>r\<in>set ?rows. length r = C"
    using len by (auto simp: normalize_rows_def length_softmax)
  then have "\<forall>r\<in>set ?rows. \<exists>y. top2 np r = Inr y"
    using top2_total [of np] assms(3,5) by fastforce
  then obtain pairs where "map_err (top2 np) ?rows = Inr pairs"
    using map_err_total by blast
  then show ?thesis
    using crnn_time_major [OF assms(1,2) c assms(4), of np mv]
    by (simp add: length_normalize_rows rows_of_length)
qed

text \<open>
  Claim C6, as the source has it. For every time-major tensor with one batch entry, decoded
  under a CRNN model name with no expected text, the call succeeds (given an argsort
  that returns as many indices as the row has scores, and at least two classes) and
  returns: the first longest text among those of the fourteen results that are made of
  digits only and have four characters or more; and, when there is no such text, the
  greedy text of the first mapping.
\<close>

theorem crnn_no_reference:
  assumes "contains (lower fn) ''crnn''" "get_model_config fn \<noteq> Special"
    "shape t = [T, 1, C]" "1 < T" "2 \<le> C" "wf_array t"
    "\<forall>row. length (np_argsort np row) = length row" "\<not> truthy e"
  shows "\<exists>mv ci pairs r.
           np_min (data t) = Inr mv \<and> crnn_indices np mv t = Inr (ci, pairs) \<and> length ci = T \<and>
           postprocess_output np t fn e = Inr r \<and>
           (if digit_candidates (map snd (crnn_results ci pairs)) = []
            then r = ctc_greedy (mappings_config ! 0) ci
            else first_longest (digit_candidates (map snd (crnn_results ci pairs))) r)"
proof -
  have "length (data t) = T * C" using assms(3,6) by (simp add: wf_array_def)
  then have "length (data t) \<noteq> 0" using assms(4,5) by simp
  then have "data t \<noteq> []" by auto
  then obtain mv where mv: "np_min (data t) = Inr mv" using np_min_nonempty by blast
  obtain ci pairs where ci: "crnn_indices np mv t = Inr (ci, pairs)" "length ci = T"
    using crnn_indices_total [OF assms(3,4,5,6,7)] by blast
  obtain r where r: "crnn_select e (crnn_results ci pairs) = Inr r"
     "if digit_candidates (map snd (crnn_results ci pairs)) = []
      then r = ctc_greedy (mappings_config ! 0) ci
      else first_longest (digit_candidates (map snd (crnn_results ci pairs))) r"
    using crnn_select_no_reference [OF assms(8)] by blast
  have len3: "length (shape t) = 3" using assms(3) by simp
  have "postprocess_output np t fn e = Inr r"
    by (simp add: postprocess_crnn [OF assms(1,2) len3 mv] decode_crnn_def ci(1) r(1))
  then show ?thesis using mv ci r(2) by blast
qed

lemma top2_eval:
  "take 2 (rev (np_argsort np row)) = [a, b] \<Longrightarrow> top2 np row = Inr (a, b)"
  by (cases "rev (np_argsort np row)" rule: list.exhaust)
     (auto simp: top2_def take_Suc_conv_app_nth split: list.splits)

lemma peak_top2:
  "take 2 (rev (stable_argsort (peak_row 27))) = [27, 33]"
  "take 2 (rev (stable_argsort (peak_row 28))) = [28, 33]"
  "take 2 (rev (stable_argsort (peak_row 29))) = [29, 33]"
  "take 2 (rev (stable_argsort (peak_row 30))) = [30, 33]"
  by code_simp+

lemma peak_argmax:
  "map argmax_idx [peak_row 27, peak_row 28, peak_row 29, peak_row 30] = [27, 28, 29, 30]"
  by code_simp

lemma peak_rows:
  "rows_of 4 34 (concat (map peak_row [27, 28, 29, 30])) =
   [peak_row 27, peak_row 28, peak_row 29, peak_row 30]"
  by code_simp

lemma peak_min: "np_min (concat (map peak_row [27, 28, 29, 30])) = Inr 0"
  by code_simp

lemma peak_select:
  "crnn_select None (crnn_results [27, 28, 29, 30] [(27, 33), (28, 33), (29, 33), (30, 33)]) =
   Inr ''0123''"
  by code_simp

lemma config_crnn:
  "contains (lower ''crnn_model.onnx'') ''crnn'' \<and> get_model_config ''crnn_model.onnx'' \<noteq> Special"
  by code_simp

text \<open>
  Claim C6 as stated fails: for four time steps with the argmax indices 27, 28, 29, 30 the
  greedy text of the first mapping is \<open>QRST\<close>, and the call returns the all-digit text
  \<open>0123\<close> of the second mapping.
\<close>

theorem crnn_no_reference_counterexample:
  "postprocess_output numpy_reference
     \<lparr>shape = [4, 1, 34], data = concat (map peak_row [27, 28, 29, 30])\<rparr> ''crnn_model.onnx'' None =
     Inr ''0123'' \<and>
   crnn_indices numpy_reference 0
     \<lparr>shape = [4, 1, 34], data = concat (map peak_row [27, 28, 29, 30])\<rparr> =
     Inr ([27, 28, 29, 30], [(27, 33), (28, 33), (29, 33), (30, 33)]) \<and>
   ctc_greedy (mappings_config ! 0) [27, 28, 29, 30] = ''QRST''"
proof -
  let ?t = "\<lparr>shape = [4, 1, 34], data = concat (map peak_row [27, 28, 29, 30])\<rparr>"
  have wf: "wf_array ?t" by (simp add: wf_array_def peak_row_def)
  have t2: "top2 numpy_reference (peak_row 27) = Inr (27, 33)"
      "top2 numpy_reference (peak_row 28) = Inr (28, 33)"
      "top2 numpy_reference (peak_row 29) = Inr (29, 33)"
      "top2 numpy_reference (peak_row 30) = Inr (30, 33)"
    by (rule top2_eval, simp add: numpy_reference_def peak_top2)+
  have d: "data ?t = concat (map peak_row [27, 28, 29, 30])" by simp
  have rows: "normalize_rows numpy_reference 0 (rows_of 4 34 (data ?t)) =
      [peak_row 27, peak_row 28, peak_row 29, peak_row 30]"
    unfolding d peak_rows by (simp add: normalize_rows_def)
  have pairs: "map_err (top2 numpy_reference) [peak_row 27, peak_row 28, peak_row 29, peak_row 30] =
      Inr [(27, 33), (28, 33), (29, 33), (30, 33)]"
    by (simp add: t2)
  have "crnn_indices numpy_reference 0 ?t =
     (case map_err (top2 numpy_reference) (normalize_rows numpy_reference 0 (rows_of 4 34 (data ?t))) of
        Inl e \<Rightarrow> Inl e
      | Inr pairs \<Rightarrow>
          Inr (map argmax_idx (normalize_rows numpy_reference 0 (rows_of 4 34 (data ?t))), pairs))"
    by (rule crnn_time_major [OF _ _ _ wf]) simp_all
  then have ci: "crnn_indices numpy_reference 0 ?t =
      Inr ([27, 28, 29, 30], [(27, 33), (28, 33), (29, 33), (30, 33)])"
    by (simp only: rows pairs peak_argmax sum.case)
  have "postprocess_output numpy_reference ?t ''crnn_model.onnx'' None =
        decode_crnn numpy_reference 0 ?t None"
  proof (rule postprocess_crnn)
    show "np_min (data ?t) = Inr 0" unfolding d by (rule peak_min)
  qed (simp_all add: config_crnn)
  then have res: "postprocess_output numpy_reference ?t ''crnn_model.onnx'' None = Inr ''0123''"
    by (simp only: decode_crnn_def ci sum.case prod.case peak_select)
  have g: "ctc_greedy (mappings_config ! 0) [27, 28, 29, 30] = ''QRST''" by code_simp
  show ?thesis using res ci g by blast
qed

lemma argsort_reference_length: "\<forall>row. length (np_argsort numpy_reference row) = length row"
  by (simp add: numpy_reference_def stable_argsort_def)

theorem crnn_no_reference_witness:
  "wf_array \<lparr>shape = [4, 1, 34], data = concat (map peak_row [27, 28, 29, 30])\<rparr> \<and>
   (\<exists>mv ci pairs r.
      np_min (concat (map peak_row [27, 28, 29, 30])) = Inr mv \<and>
      crnn_indices numpy_reference mv
        \<lparr>shape = [4, 1, 34], data = concat (map peak_row [27, 28, 29, 30])\<rparr> = Inr (ci, pairs) \<and>
      postprocess_output numpy_reference
        \<lparr>shape = [4, 1, 34], data = concat (map peak_row [27, 28, 29, 30])\<rparr>
        ''crnn_model.onnx'' None = Inr r)"
proof -
  let ?t = "\<lparr>shape = [4, 1, 34], data = concat (map peak_row [27, 28, 29, 30])\<rparr>"
  have wf: "wf_array ?t" by (simp add: wf_array_def peak_row_def)
  have c: "contains (lower ''crnn_model.onnx'') ''crnn''"
     "get_model_config ''crnn_model.onnx'' \<noteq> Special"
    using config_crnn by simp_all
  show ?thesis
    using crnn_no_reference [OF c _ _ _ wf argsort_reference_length, of 4 34 None] wf
    by auto
qed

subsection \<open>A single row under a model name without configuration\<close>

lemma single_row_probs_unbound:
  "is_v1_v8_model '''' = False \<and>
   single_row_probs (replicate 378 0) (get_model_config '''') = Inl UnboundLocalError \<and>
   np_min (replicate 378 0) = Inr 0"
  by code_simp

text \<open>
  The inference loop of the single-row branch reads \<^verbatim>\<open>seq_len\<close> before anything has
  assigned it: a row of 378 = 6 * 63 probabilities under the empty model name raises
  UnboundLocalError.
\<close>

lemma single_row_unbound_local:
  "postprocess_output numpy_reference \<lparr>shape = [1, 378], data = replicate 378 0\<rparr> '''' None =
   Inl UnboundLocalError"
proof -
  let ?t = "\<lparr>shape = [1, 378], data = replicate 378 0\<rparr>"
  have r: "length (shape ?t) \<noteq> 3" by simp
  have wf: "wf_array ?t" by (simp add: wf_array_def)
  have g: "generic_indices numpy_reference 0 ?t '''' =
      single_row numpy_reference 0 (data ?t) ''''"
    by (rule generic_single_row [OF _ wf]) simp
  have d: "data ?t = replicate 378 0" by simp
  have sr: "single_row numpy_reference 0 (replicate 378 0) '''' = Inl UnboundLocalError"
    unfolding single_row_def Let_def
    by (simp only: single_row_probs_unbound simp_thms if_False less_irrefl indices_outcome_def
        sum.case)
  show ?thesis
    unfolding not_rank3 [OF r] d
    by (simp only: single_row_probs_unbound sum.case g d sr)
qed

subsection \<open>Decoding the indices with an expected text\<close>

lemma charset_variants_nonempty: "charset_variants cs \<noteq> []"
  by (simp add: charset_variants_def)

lemma select_best_score_nonneg: "texts \<noteq> [] \<Longrightarrow> 0 \<le> snd (select_best e texts)"
  using select_best_first_max [of texts e] match_score_nonneg by fastforce

lemma decode_indices_unfold:
  "decode_indices e ci cs =
     (if truthy e \<and> (length cs = 63 \<or> length cs = 37)
      then fst (select_best (the e) (map (\<lambda>v. decode_variant v ci) (charset_variants cs)))
      else decode_variant cs ci)"
proof -
  have "0 \<le> snd (select_best (the e) (map (\<lambda>v. decode_variant v ci) (charset_variants cs)))"
    by (rule select_best_score_nonneg) (simp add: charset_variants_nonempty)
  then show ?thesis by (auto simp: decode_indices_def Let_def)
qed

lemma first_char_set_length: "first_char_set_of_size m = Some cs' \<Longrightarrow> length cs' = m"
  by (auto simp: first_char_set_of_size_def find_Some_iff)

text \<open>
  Claim C7, as the source has it. For every pair of a sequence length and a character set
  in \<^verbatim>\<open>MODEL_CONFIGS\<close>, a tensor of a rank other than 2 and 3 with sequence length times
  character set size elements, under a model name without configuration, is reshaped
  to that sequence length and that size. Without an expected text, and for the size 11,
  its row argmax indices are decoded with the first character set of \<^verbatim>\<open>CHAR_SETS\<close> that
  has that size. With an expected text and a size of 63 or 37, the text returned is the
  one of the highest score, the first among equal scores, among the decodings of the
  indices with the orderings that the variant loop tries for that character set.
\<close>

theorem generic_reshape_known_pairs:
  assumes "(v, s, k) \<in> set MODEL_CONFIGS" "map_of CHAR_SETS k = Some cs"
    "length (shape t) \<noteq> 2" "length (shape t) \<noteq> 3" "wf_array t"
    "length (data t) = s * length cs" "get_model_config fn = NoConfig"
  shows "\<exists>cs'. first_char_set_of_size (length cs) = Some cs' \<and>
           postprocess_output np t fn e =
             Inr (if truthy e \<and> (length cs = 63 \<or> length cs = 37)
                  then fst (select_best (the e)
                         (map (\<lambda>variant. decode_variant variant
                                 (map argmax_idx (rows_of s (length cs) (data t))))
                            (charset_variants cs')))
                  else decode_variant cs' (map argmax_idx (rows_of s (length cs) (data t))))"
proof -
  obtain cs' where k: "first_char_set_of_size (length cs) = Some cs'" "s \<noteq> 0" "length cs \<noteq> 0"
      "find_factor (s * length cs) = Some s" "resolve_char_set NoConfig (s * length cs) = Inr cs'"
    using known_table [OF assms(1,2)] by blast
  have len: "length cs' = length cs" by (rule first_char_set_length [OF k(1)])
  have "postprocess_output np t fn e =
          Inr (decode_indices e (map argmax_idx (rows_of s (length cs) (data t))) cs')"
    by (rule postprocess_factor [OF assms(3,4) _ assms(6) k(3,2)])
       (simp_all add: assms(6,7) k(4,5))
  then have "postprocess_output np t fn e =
             Inr (if truthy e \<and> (length cs = 63 \<or> length cs = 37)
                  then fst (select_best (the e)
                         (map (\<lambda>variant. decode_variant variant
                                 (map argmax_idx (rows_of s (length cs) (data t))))
                            (charset_variants cs')))
                  else decode_variant cs' (map argmax_idx (rows_of s (length cs) (data t))))"
    by (simp only: decode_indices_unfold len)
  then show ?thesis using k(1) by blast
qed

lemma zeros_378:
  "map argmax_idx (rows_of 6 63 (replicate 378 0)) = [0, 0, 0, 0, 0, 0] \<and>
   decode_indices (Some ''000000'') [0, 0, 0, 0, 0, 0] charset_63 = ''000000'' \<and>
   decode_variant charset_63 [0, 0, 0, 0, 0, 0] = ''aaaaaa'' \<and>
   map_of CHAR_SETS ''63'' = Some charset_63 \<and>
   (''v1'', 6, ''63'') \<in> set MODEL_CONFIGS"
  by code_simp

lemma zeros_378_labelled:
  "postprocess_output numpy_reference \<lparr>shape = [378], data = replicate 378 0\<rparr> ''''
     (Some ''000000'') = Inr ''000000''"
proof -
  let ?t = "\<lparr>shape = [378], data = replicate 378 0\<rparr>"
  have "postprocess_output numpy_reference ?t '''' (Some ''000000'') =
          Inr (decode_indices (Some ''000000'') (map argmax_idx (rows_of 6 63 (data ?t))) charset_63)"
    by (rule postprocess_factor) (simp_all add: known_378 config_empty_name)
  also have "data ?t = replicate 378 0" by simp
  finally show ?thesis by (simp only: zeros_378)
qed

text \<open>
  Claim C7 as stated fails in two ways. Without an expected text, a vector of 222 scores of
  the pair \<open>(6, 37_lowercase)\<close> is decoded with the character set \<open>37_uppercase\<close>, which
  comes first among those of size 37. With the expected text \<open>000000\<close>, a vector of 378
  scores of the pair \<open>(6, 63)\<close> returns \<open>000000\<close>, the decoding with the digits-first
  ordering of the variant loop, where the character set \<open>63\<close> gives \<open>aaaaaa\<close>.
\<close>

theorem generic_reshape_counterexample:
  "(''v4'', 6, ''37_lowercase'') \<in> set MODEL_CONFIGS \<and>
   map_of CHAR_SETS ''37_lowercase'' = Some ''abcdefghijklmnopqrstuvwxyz0123456789$'' \<and>
   postprocess_output numpy_reference \<lparr>shape = [222], data = replicate 222 0\<rparr> '''' None =
     Inr ''AAAAAA'' \<and>
   decode_variant ''abcdefghijklmnopqrstuvwxyz0123456789$''
     (map argmax_idx (rows_of 6 37 (replicate 222 0))) = ''aaaaaa'' \<and>
   (''v1'', 6, ''63'') \<in> set MODEL_CONFIGS \<and>
   map_of CHAR_SETS ''63'' = Some charset_63 \<and>
   postprocess_output numpy_reference \<lparr>shape = [378], data = replicate 378 0\<rparr> ''''
     (Some ''000000'') = Inr ''000000'' \<and>
   decode_variant charset_63 (map argmax_idx (rows_of 6 63 (replicate 378 0))) = ''aaaaaa''"
proof -
  let ?t = "\<lparr>shape = [222], data = replicate 222 0\<rparr>"
  have a: "(''v4'', 6, ''37_lowercase'') \<in> set MODEL_CONFIGS" by code_simp
  have b: "map_of CHAR_SETS ''37_lowercase'' = Some ''abcdefghijklmnopqrstuvwxyz0123456789$''"
    by code_simp
  have idx: "map argmax_idx (rows_of 6 37 (replicate 222 0)) = [0, 0, 0, 0, 0, 0]"
    by code_simp
  have "postprocess_output numpy_reference ?t '''' None =
          Inr (decode_indices None (map argmax_idx (rows_of 6 37 (data ?t)))
                 ''ABCDEFGHIJKLMNOPQRSTUVWXYZ0123456789$'')"
    by (rule postprocess_factor) (simp_all add: known_222 config_empty_name)
  also have "data ?t = replicate 222 0" by simp
  also note idx
  also have "decode_indices None [0, 0, 0, 0, 0, 0] ''ABCDEFGHIJKLMNOPQRSTUVWXYZ0123456789$'' =
     ''AAAAAA''" by code_simp
  finally have c: "postprocess_output numpy_reference ?t '''' None = Inr ''AAAAAA''" .
  have d: "decode_variant ''abcdefghijklmnopqrstuvwxyz0123456789$''
     (map argmax_idx (rows_of 6 37 (replicate 222 0))) = ''aaaaaa''"
    unfolding idx by code_simp
  have e: "decode_variant charset_63 (map argmax_idx (rows_of 6 63 (replicate 378 0))) = ''aaaaaa''"
    using zeros_378 by simp
  show ?thesis using a b c d e zeros_378 zeros_378_labelled by blast
qed

theorem generic_reshape_known_pairs_witness:
  "(''v1'', 6, ''63'') \<in> set MODEL_CONFIGS \<and>
   map_of CHAR_SETS ''63'' = Some charset_63 \<and>
   wf_array \<lparr>shape = [378], data = replicate 378 0\<rparr> \<and>
   (\<exists>cs'. first_char_set_of_size (length charset_63) = Some cs' \<and>
      postprocess_output numpy_reference \<lparr>shape = [378], data = replicate 378 0\<rparr> ''''
        (Some ''000000'') =
        Inr (fst (select_best ''000000''
               (map (\<lambda>variant. decode_variant variant
                       (map argmax_idx (rows_of 6 (length charset_63) (replicate 378 0))))
                  (charset_variants cs')))))"
proof -
  let ?t = "\<lparr>shape = [378], data = replicate 378 0\<rparr>"
  have a: "(''v1'', 6, ''63'') \<in> set MODEL_CONFIGS" using zeros_378 by simp
  have b: "map_of CHAR_SETS ''63'' = Some charset_63" using zeros_378 by simp
  have wf: "wf_array ?t" by (simp add: wf_array_def)
  have l63: "length charset_63 = 63" by (simp add: charset_63_def)
  have len: "length (data ?t) = 6 * length charset_63" by (simp add: l63)
  show ?thesis
    using generic_reshape_known_pairs [OF a b _ _ wf len config_empty_name,
        of numpy_reference "Some ''000000''"] a b wf
    by (simp add: l63)
qed

subsection \<open>The round trip from the text to the indices\<close>

lemma map_err_map: "map_err g (map f xs) = map_err (\<lambda>x. g (f x)) xs"
  by (induction xs) (auto split: sum.splits)

lemma map_err_cong: "(\<And>x. x \<in> set xs \<Longrightarrow> f x = g x) \<Longrightarrow> map_err f xs = map_err g xs"
  by (induction xs) (auto split: sum.splits)

lemma rows_of_slices:
  "rows_of s m flat = map (\<lambda>i. py_slice (m * i) (m * (i + 1)) flat) [0..<s]"
  by (simp add: rows_of_def py_slice_def drop_take mult.commute)

lemma segment_argmax_eq:
  "segment_argmax np mv flat m idx =
     argmax (if mv < 0 then softmax np (py_slice (m * idx) (m * (idx + 1)) flat)
             else py_slice (m * idx) (m * (idx + 1)) flat)"
  by (simp add: segment_argmax_def Let_def argmax_def softmax_eq_Nil)

lemma reshape_segments:
  assumes "length flat = s * m"
  shows "(if mv < 0 then reshape_softmax_argmax np s m flat else reshape_argmax s m flat) =
         map_err (segment_argmax np mv flat m) [0..<s]"
proof (cases "mv < 0")
  case True
  have "reshape_softmax_argmax np s m flat = argmax_rows (map (softmax np) (rows_of s m flat))"
    by (simp add: reshape_softmax_argmax_def reshape_def assms)
  also have "\<dots> = map_err (segment_argmax np mv flat m) [0..<s]"
    unfolding argmax_rows_def rows_of_slices map_map map_err_map
    by (rule map_err_cong) (simp add: segment_argmax_eq True)
  finally show ?thesis using True by simp
next
  case False
  have "reshape_argmax s m flat = argmax_rows (rows_of s m flat)"
    by (simp add: reshape_argmax_def reshape_def assms)
  also have "\<dots> = map_err (segment_argmax np mv flat m) [0..<s]"
    unfolding argmax_rows_def rows_of_slices map_err_map
    by (rule map_err_cong) (simp add: segment_argmax_eq False)
  finally show ?thesis using False by simp
qed

lemma single_row_config:
  assumes "\<not> is_v1_v8_model fn" "get_model_config fn = Config s k"
    "map_of CHAR_SETS k = Some cs"
  shows "single_row np mv flat fn =
     indices_outcome (if mv < 0 then reshape_softmax_argmax np s (length cs) flat
                      else reshape_argmax s (length cs) flat)"
proof -
  have tr: "config_truthy (Config s k)" using config_char_set [OF assms(2)] by simp
  have ns: "Config s k \<noteq> Special" by simp
  show ?thesis
    unfolding single_row_def Let_def single_row_logits_def single_row_probs_def
    by (simp only: assms tr ns simp_thms if_True if_False model_config.case option.case) simp
qed

lemma resolve_config:
  assumes "get_model_config fn = Config s k" "map_of CHAR_SETS k = Some cs"
  shows "resolve_char_set (Config s k) n = Inr cs"
proof -
  have "k \<noteq> []" using config_char_set [OF assms(1)] by simp
  then show ?thesis by (simp add: resolve_char_set_def assms(2))
qed

lemma postprocess_single_row_config:
  assumes "\<not> is_v1_v8_model fn" "get_model_config fn = Config s k"
    "map_of CHAR_SETS k = Some cs" "shape t = [1, s * length cs]" "wf_array t"
    "np_min (data t) = Inr mv"
    "map_err (segment_argmax np mv (data t) (length cs)) [0..<s] = Inr idxs" "idxs \<noteq> []"
  shows "postprocess_output np t fn e = Inr (decode_indices e idxs cs)"
proof -
  have r: "length (shape t) \<noteq> 3" using assms(4) by simp
  have len: "length (data t) = s * length cs" using assms(4,5) by (simp add: wf_array_def)
  have g: "generic_indices np mv t fn = Inr (Indices idxs)"
    by (simp add: generic_single_row [OF assms(4,5)] single_row_config [OF assms(1,2,3)]
        reshape_segments [OF len] assms(7) indices_outcome_def)
  show ?thesis
    by (simp add: not_rank3 [OF r] assms(2,6,8) g resolve_config [OF assms(2,3)])
qed

lemma variants_63:
  "charset_variants ''abcdefghijklmnopqrstuvwxyzABCDEFGHIJKLMNOPQRSTUVWXYZ0123456789$'' =
     [''abcdefghijklmnopqrstuvwxyzABCDEFGHIJKLMNOPQRSTUVWXYZ0123456789$'',
      ''0123456789abcdefghijklmnopqrstuvwxyzABCDEFGHIJKLMNOPQRSTUVWXYZ$'',
      ''ABCDEFGHIJKLMNOPQRSTUVWXYZabcdefghijklmnopqrstuvwxyz0123456789$'',
      ''abcdefghijklmnopqrstuvwxyzABCDEFGHIJKLMNOPQRSTUVWXYZ0123456789$'']"
  by (simp add: charset_variants_def dict_get_def CHAR_SETS_def)

lemma variants_37u:
  "charset_variants ''ABCDEFGHIJKLMNOPQRSTUVWXYZ0123456789$'' =
     [''ABCDEFGHIJKLMNOPQRSTUVWXYZ0123456789$'',
      ''0123456789abcdefghijklmnopqrstuvwxyz$'',
      ''0123456789ABCDEFGHIJKLMNOPQRSTUVWXYZ$'',
      ''ABCDEFGHIJKLMNOPQRSTUVWXYZ0123456789$'',
      ''abcdefghijklmnopqrstuvwxyz0123456789$'']"
  by (simp add: charset_variants_def dict_get_def CHAR_SETS_def)

lemma variants_37l:
  "charset_variants ''abcdefghijklmnopqrstuvwxyz0123456789$'' =
     [''abcdefghijklmnopqrstuvwxyz0123456789$'',
      ''0123456789abcdefghijklmnopqrstuvwxyz$'',
      ''0123456789ABCDEFGHIJKLMNOPQRSTUVWXYZ$'',
      ''ABCDEFGHIJKLMNOPQRSTUVWXYZ0123456789$'',
      ''abcdefghijklmnopqrstuvwxyz0123456789$'']"
  by (simp add: charset_variants_def dict_get_def CHAR_SETS_def)

lemma variants_11: "charset_variants ''0123456789$'' = [''0123456789$'']"
  by (simp add: charset_variants_def)

lemma distinct_orderings:
  "distinct ''abcdefghijklmnopqrstuvwxyzABCDEFGHIJKLMNOPQRSTUVWXYZ0123456789$''"
  "distinct ''0123456789abcdefghijklmnopqrstuvwxyzABCDEFGHIJKLMNOPQRSTUVWXYZ$''"
  "distinct ''ABCDEFGHIJKLMNOPQRSTUVWXYZabcdefghijklmnopqrstuvwxyz0123456789$''"
  "distinct ''ABCDEFGHIJKLMNOPQRSTUVWXYZ0123456789$''"
  "distinct ''abcdefghijklmnopqrstuvwxyz0123456789$''"
  "distinct ''0123456789abcdefghijklmnopqrstuvwxyz$''"
  "distinct ''0123456789ABCDEFGHIJKLMNOPQRSTUVWXYZ$''"
  "distinct ''0123456789$''"
  by simp_all

lemma char_set_cases:
  assumes "map_of CHAR_SETS k = Some cs"
  shows "cs = ''abcdefghijklmnopqrstuvwxyzABCDEFGHIJKLMNOPQRSTUVWXYZ0123456789$'' \<or>
         cs = ''ABCDEFGHIJKLMNOPQRSTUVWXYZ0123456789$'' \<or>
         cs = ''abcdefghijklmnopqrstuvwxyz0123456789$'' \<or>
         cs = ''0123456789$''"
proof -
  have "(k, cs) \<in> set CHAR_SETS" using assms by (rule map_of_SomeD)
  then have "cs \<in> snd ` set CHAR_SETS" by force
  also have "snd ` set CHAR_SETS =
     {''abcdefghijklmnopqrstuvwxyzABCDEFGHIJKLMNOPQRSTUVWXYZ0123456789$'',
      ''ABCDEFGHIJKLMNOPQRSTUVWXYZ0123456789$'',
      ''abcdefghijklmnopqrstuvwxyz0123456789$'',
      ''0123456789$''}"
    unfolding CHAR_SETS_def by (simp only: set_simps image_insert image_empty snd_conv)
  finally show ?thesis by (simp only: insert_iff empty_iff simp_thms)
qed

lemma length_orderings:
  "length ''abcdefghijklmnopqrstuvwxyzABCDEFGHIJKLMNOPQRSTUVWXYZ0123456789$'' = 63"
  "length ''0123456789abcdefghijklmnopqrstuvwxyzABCDEFGHIJKLMNOPQRSTUVWXYZ$'' = 63"
  "length ''ABCDEFGHIJKLMNOPQRSTUVWXYZabcdefghijklmnopqrstuvwxyz0123456789$'' = 63"
  "length ''ABCDEFGHIJKLMNOPQRSTUVWXYZ0123456789$'' = 37"
  "length ''abcdefghijklmnopqrstuvwxyz0123456789$'' = 37"
  "length ''0123456789abcdefghijklmnopqrstuvwxyz$'' = 37"
  "length ''0123456789ABCDEFGHIJKLMNOPQRSTUVWXYZ$'' = 37"
  "length ''0123456789$'' = 11"
  by simp_all

lemma variants_all:
  assumes "map_of CHAR_SETS k = Some cs"
  shows "cs \<in> set (charset_variants cs) \<and>
         list_all (\<lambda>v. distinct v \<and> length v = length cs) (charset_variants cs)"
proof -
  consider "cs = ''abcdefghijklmnopqrstuvwxyzABCDEFGHIJKLMNOPQRSTUVWXYZ0123456789$''"
    | "cs = ''ABCDEFGHIJKLMNOPQRSTUVWXYZ0123456789$''"
    | "cs = ''abcdefghijklmnopqrstuvwxyz0123456789$''"
    | "cs = ''0123456789$''"
    using char_set_cases [OF assms] by (elim disjE)
  then show ?thesis
  proof cases
    case 1
    have "cs \<in> set (charset_variants cs)" unfolding 1 variants_63 by (rule list.set_intros(1))
    moreover have "list_all (\<lambda>v. distinct v \<and> length v = length cs) (charset_variants cs)"
      unfolding 1 variants_63
      by (simp only: list_all_Cons_iff list_all_Nil_iff distinct_orderings length_orderings simp_thms)
    ultimately show ?thesis by (rule conjI)
  next
    case 2
    have "cs \<in> set (charset_variants cs)" unfolding 2 variants_37u by (rule list.set_intros(1))
    moreover have "list_all (\<lambda>v. distinct v \<and> length v = length cs) (charset_variants cs)"
      unfolding 2 variants_37u
      by (simp only: list_all_Cons_iff list_all_Nil_iff distinct_orderings length_orderings simp_thms)
    ultimately show ?thesis by (rule conjI)
  next
    case 3
    have "cs \<in> set (charset_variants cs)" unfolding 3 variants_37l by (rule list.set_intros(1))
    moreover have "list_all (\<lambda>v. distinct v \<and> length v = length cs) (charset_variants cs)"
      unfolding 3 variants_37l
      by (simp only: list_all_Cons_iff list_all_Nil_iff distinct_orderings length_orderings simp_thms)
    ultimately show ?thesis by (rule conjI)
  next
    case 4
    have "cs \<in> set (charset_variants cs)" unfolding 4 variants_11 by (rule list.set_intros(1))
    moreover have "list_all (\<lambda>v. distinct v \<and> length v = length cs) (charset_variants cs)"
      unfolding 4 variants_11
      by (simp only: list_all_Cons_iff list_all_Nil_iff distinct_orderings length_orderings simp_thms)
    ultimately show ?thesis by (rule conjI)
  qed
qed

lemma variants_ok:
  assumes "map_of CHAR_SETS k = Some cs"
  shows "cs \<in> set (charset_variants cs)"
    and "v \<in> set (charset_variants cs) \<Longrightarrow> distinct v \<and> length v = length cs"
proof -
  note a = variants_all [OF assms]
  show "cs \<in> set (charset_variants cs)" using a by (rule conjunct1)
  have b: "\<forall>v\<in>set (charset_variants cs). distinct v \<and> length v = length cs"
    using conjunct2 [OF a] by (simp only: list_all_iff)
  show "distinct v \<and> length v = length cs" if "v \<in> set (charset_variants cs)"
    using b that by (rule bspec)
qed

lemma char_set_sizes:
  assumes "map_of CHAR_SETS k = Some cs"
  shows "length cs = 63 \<or> length cs = 37 \<or> length cs = 11"
proof -
  consider "cs = ''abcdefghijklmnopqrstuvwxyzABCDEFGHIJKLMNOPQRSTUVWXYZ0123456789$''"
    | "cs = ''ABCDEFGHIJKLMNOPQRSTUVWXYZ0123456789$''"
    | "cs = ''abcdefghijklmnopqrstuvwxyz0123456789$''"
    | "cs = ''0123456789$''"
    using char_set_cases [OF assms] by (elim disjE)
  then show ?thesis
  proof cases
    case 1 show ?thesis unfolding 1 by (simp only: length_orderings simp_thms)
  next
    case 2 show ?thesis unfolding 2 by (simp only: length_orderings simp_thms)
  next
    case 3 show ?thesis unfolding 3 by (simp only: length_orderings simp_thms)
  next
    case 4 show ?thesis unfolding 4 by (simp only: length_orderings simp_thms)
  qed
qed

lemma decode_variant_in_range:
  "\<forall>i\<in>set idxs. i < length v \<Longrightarrow> decode_variant v idxs = map (\<lambda>i. v ! i) idxs"
  by (induction idxs) (simp_all add: decode_variant_def)

lemma roundtrip_variant:
  assumes "distinct v" "\<forall>i\<in>set idxs. i < length v"
  shows "map (index_of v) (decode_variant v idxs) = idxs"
  using assms by (simp add: decode_variant_in_range index_of_nth map_idI)

lemma segment_indices_in_range:
  assumes "map_err (segment_argmax np mv flat m) xs = Inr idxs"
  shows "\<forall>i\<in>set idxs. i < m"
proof
  fix i assume "i \<in> set idxs"
  then obtain j where j: "j < length idxs" "idxs ! j = i" by (auto simp: in_set_conv_nth)
  have "length idxs = length xs" by (rule map_err_length [OF assms])
  then have "segment_argmax np mv flat m (xs ! j) = Inr (idxs ! j)"
    using map_err_all [OF assms] j(1) by simp
  then show "i < m" using segment_argmax_less j(2) by blast
qed

lemma decode_indices_roundtrip:
  assumes "map_of CHAR_SETS k = Some cs" "\<forall>i\<in>set idxs. i < length cs"
  shows "\<exists>v. v \<in> set (charset_variants cs) \<and>
           map (index_of v) (decode_indices e idxs cs) = idxs \<and>
           (\<not> truthy e \<or> length cs = 11 \<longrightarrow> v = cs)"
proof (cases "truthy e \<and> (length cs = 63 \<or> length cs = 37)")
  case True
  let ?texts = "map (\<lambda>v. decode_variant v idxs) (charset_variants cs)"
  have ne: "?texts \<noteq> []" by (simp add: charset_variants_nonempty)
  obtain i where i: "i < length ?texts" "select_best (the e) ?texts = (?texts ! i, match_score (?texts ! i) (the e))"
    using select_best_first_max [OF ne, of "the e"] by blast
  let ?v = "charset_variants cs ! i"
  have iv: "i < length (charset_variants cs)" using i(1) by simp
  then have mem: "?v \<in> set (charset_variants cs)" by simp
  have ok: "distinct ?v" "length ?v = length cs" using variants_ok(2) [OF assms(1) mem] by simp_all
  have "decode_indices e idxs cs = decode_variant ?v idxs"
    using True i(2) iv by (simp add: decode_indices_unfold)
  then have "map (index_of ?v) (decode_indices e idxs cs) = idxs"
    using roundtrip_variant [OF ok(1)] assms(2) ok(2) by simp
  then show ?thesis using mem True by auto
next
  case False
  have "decode_indices e idxs cs = decode_variant cs idxs"
    using False by (auto simp: decode_indices_unfold)
  moreover have "distinct cs" using char_sets_distinct [OF assms(1)] by simp
  ultimately have "map (index_of cs) (decode_indices e idxs cs) = idxs"
    using roundtrip_variant assms(2) by simp
  then show ?thesis using variants_ok(1) [OF assms(1)] by blast
qed

text \<open>
  Claim C9, as the source has it. For every single row of sequence length times character
  set size scores, under a model name that resolves to a configured sequence length and
  character set, the call succeeds and its text maps back, character by character, to
  the argmax indices of the segments: through the configured character set when the
  model name is one of \<^verbatim>\<open>captcha_model_v1.onnx\<close> to \<^verbatim>\<open>captcha_model_v8.onnx\<close>, when
  no expected text is given, and when the size is 11; under another model name with an
  expected text, the text is the one of the highest score among the decodings with the
  orderings of the variant loop, and it maps back through the ordering that gave it.
\<close>

theorem flat_segmented_roundtrip:
  assumes "get_model_config fn = Config s k" "map_of CHAR_SETS k = Some cs"
    "shape t = [1, s * length cs]" "wf_array t"
  shows "\<exists>min_val idxs text v.
           np_min (data t) = Inr min_val \<and>
           map_err (segment_argmax np min_val (data t) (length cs)) [0..<s] = Inr idxs \<and>
           postprocess_output np t fn e = Inr text \<and>
           v \<in> set (charset_variants cs) \<and> map (index_of v) text = idxs \<and>
           (is_v1_v8_model fn \<or> \<not> truthy e \<or> length cs = 11 \<longrightarrow> v = cs) \<and>
           (\<not> is_v1_v8_model fn \<and> truthy e \<and> length cs \<noteq> 11 \<longrightarrow>
              text = fst (select_best (the e)
                       (map (\<lambda>variant. decode_variant variant idxs) (charset_variants cs))))"
proof -
  obtain mv where mv: "np_min (data t) = Inr mv"
    using np_min_nonempty [OF flat_data_nonempty [OF assms]] by blast
  have len: "length (data t) = s * length cs" using assms(3,4) by (simp add: wf_array_def)
  obtain idxs where idxs: "map_err (segment_argmax np mv (data t) (length cs)) [0..<s] = Inr idxs"
      "length idxs = s"
    using flat_indices_total [OF assms(1,2) len] by blast
  have range: "\<forall>i\<in>set idxs. i < length cs" by (rule segment_indices_in_range [OF idxs(1)])
  have s: "s \<noteq> 0" using config_char_set [OF assms(1)] by simp
  then have ne: "idxs \<noteq> []" using idxs(2) by auto
  have sizes: "length cs = 63 \<or> length cs = 37 \<or> length cs = 11"
    by (rule char_set_sizes [OF assms(2)])
  show ?thesis
  proof (cases "is_v1_v8_model fn")
    case True
    have res: "postprocess_output np t fn e = Inr (map (\<lambda>i. cs ! i) idxs)"
      using postprocess_flat [OF True assms(1,2,3,4) mv, of np e] idxs(1) by simp
    have "map (index_of cs) (map (\<lambda>i. cs ! i) idxs) = idxs"
      using roundtrip_variant [of cs idxs] char_sets_distinct [OF assms(2)] range
      by (simp add: decode_variant_in_range)
    then show ?thesis
      by (intro exI [of _ mv] exI [of _ idxs] exI [of _ "map (\<lambda>i. cs ! i) idxs"] exI [of _ cs])
         (simp add: mv idxs(1) res variants_ok(1) [OF assms(2)] True)
  next
    case False
    have res: "postprocess_output np t fn e = Inr (decode_indices e idxs cs)"
      by (rule postprocess_single_row_config [OF False assms(1,2,3,4) mv idxs(1) ne])
    obtain v where v: "v \<in> set (charset_variants cs)"
        "map (index_of v) (decode_indices e idxs cs) = idxs"
        "\<not> truthy e \<or> length cs = 11 \<longrightarrow> v = cs"
      using decode_indices_roundtrip [OF assms(2) range] by blast
    have lab: "truthy e \<and> length cs \<noteq> 11 \<longrightarrow>
        decode_indices e idxs cs =
          fst (select_best (the e) (map (\<lambda>variant. decode_variant variant idxs) (charset_variants cs)))"
      using sizes by (auto simp: decode_indices_unfold)
    show ?thesis
      by (intro exI [of _ mv] exI [of _ idxs] exI [of _ "decode_indices e idxs cs"] exI [of _ v])
         (use mv idxs(1) res v lab False in simp)
  qed
qed

lemma dollar_row_facts:
  "\<not> is_v1_v8_model ''model_v1.onnx'' \<and>
   get_model_config ''model_v1.onnx'' = Config 6 ''63'' \<and>
   np_min (concat (replicate 5 (replicate 62 0 @ [1])) @ 1 # replicate 62 0) = Inr 0 \<and>
   reshape_argmax 6 63 (concat (replicate 5 (replicate 62 0 @ [1])) @ 1 # replicate 62 0) =
     Inr [62, 62, 62, 62, 62, 0] \<and>
   length (concat (replicate 5 (replicate 62 (0::real) @ [1])) @ 1 # replicate 62 0) = 378 \<and>
   decode_indices (Some ''$$$$$0'') [62, 62, 62, 62, 62, 0] charset_63 = ''$$$$$0'' \<and>
   map (index_of charset_63) ''$$$$$0'' = [62, 62, 62, 62, 62, 52] \<and>
   length charset_63 = 63"
  by code_simp

lemma dollar_row_segments:
  "map_err (segment_argmax numpy_reference 0
      (concat (replicate 5 (replicate 62 0 @ [1])) @ 1 # replicate 62 0) 63) [0..<6] =
   Inr [62, 62, 62, 62, 62, 0]"
proof -
  let ?d = "concat (replicate 5 (replicate 62 0 @ [1])) @ 1 # replicate 62 (0::real)"
  have len: "length ?d = 6 * 63" using dollar_row_facts by simp
  have "(if (0::real) < 0 then reshape_softmax_argmax numpy_reference 6 63 ?d
         else reshape_argmax 6 63 ?d) =
        map_err (segment_argmax numpy_reference 0 ?d 63) [0..<6]"
    by (rule reshape_segments [OF len])
  then show ?thesis using dollar_row_facts by (simp only: less_irrefl if_False)
qed

text \<open>
  Claim C9 as stated fails under the model name \<^verbatim>\<open>model_v1.onnx\<close>, which resolves to the
  pair \<open>(6, 63)\<close>: for segments with the argmax indices 62, 62, 62, 62, 62, 0 and the
  expected text \<open>$$$$$0\<close> the call returns \<open>$$$$$0\<close>, the decoding with the digits-first
  ordering, and the character set \<open>63\<close> maps its last character back to 52, not to 0.
\<close>

theorem flat_segmented_roundtrip_counterexample:
  "get_model_config ''model_v1.onnx'' = Config 6 ''63'' \<and>
   map_of CHAR_SETS ''63'' = Some charset_63 \<and>
   map_err (segment_argmax numpy_reference 0
      (concat (replicate 5 (replicate 62 0 @ [1])) @ 1 # replicate 62 0) 63) [0..<6] =
     Inr [62, 62, 62, 62, 62, 0] \<and>
   postprocess_output numpy_reference
     \<lparr>shape = [1, 378], data = concat (replicate 5 (replicate 62 0 @ [1])) @ 1 # replicate 62 0\<rparr>
     ''model_v1.onnx'' (Some ''$$$$$0'') = Inr ''$$$$$0'' \<and>
   map (index_of charset_63) ''$$$$$0'' = [62, 62, 62, 62, 62, 52]"
proof -
  let ?d = "concat (replicate 5 (replicate 62 0 @ [1])) @ 1 # replicate 62 (0::real)"
  let ?t = "\<lparr>shape = [1, 378], data = ?d\<rparr>"
  have a: "\<not> is_v1_v8_model ''model_v1.onnx''" using dollar_row_facts by (rule conjunct1)
  have b: "get_model_config ''model_v1.onnx'' = Config 6 ''63''"
    using dollar_row_facts by (simp only: simp_thms)
  have c: "map_of CHAR_SETS ''63'' = Some charset_63" using zeros_378 by (simp only: simp_thms)
  have l: "length charset_63 = 63" using dollar_row_facts by (simp only: simp_thms)
  have sh: "shape ?t = [1, 6 * length charset_63]" unfolding l by simp
  have wf: "wf_array ?t" using dollar_row_facts by (simp add: wf_array_def)
  have d: "data ?t = ?d" by simp
  have mv: "np_min (data ?t) = Inr 0" unfolding d using dollar_row_facts by (simp only: simp_thms)
  have seg: "map_err (segment_argmax numpy_reference 0 (data ?t) (length charset_63)) [0..<6] =
      Inr [62, 62, 62, 62, 62, 0]"
    unfolding d l by (rule dollar_row_segments)
  have "postprocess_output numpy_reference ?t ''model_v1.onnx'' (Some ''$$$$$0'') =
      Inr (decode_indices (Some ''$$$$$0'') [62, 62, 62, 62, 62, 0] charset_63)"
    by (rule postprocess_single_row_config [OF a b c sh wf mv seg]) simp
  then have res: "postprocess_output numpy_reference ?t ''model_v1.onnx'' (Some ''$$$$$0'') =
      Inr ''$$$$$0''"
    using dollar_row_facts by (simp only: simp_thms)
  have mapped: "map (index_of charset_63) ''$$$$$0'' = [62, 62, 62, 62, 62, 52]"
    using dollar_row_facts by (simp only: simp_thms)
  show ?thesis
    by (intro conjI) (rule b, rule c, rule dollar_row_segments, rule res, rule mapped)
qed

theorem flat_segmented_roundtrip_witness:
  "get_model_config ''model_v1.onnx'' = Config 6 ''63'' \<and>
   (\<exists>min_val idxs text v.
      np_min (data \<lparr>shape = [1, 378],
                data = concat (replicate 5 (replicate 62 0 @ [1])) @ 1 # replicate 62 0\<rparr>) =
        Inr min_val \<and>
      map_err (segment_argmax numpy_reference min_val
                 (data \<lparr>shape = [1, 378],
                    data = concat (replicate 5 (replicate 62 0 @ [1])) @ 1 # replicate 62 0\<rparr>)
                 (length charset_63)) [0..<6] = Inr idxs \<and>
      postprocess_output numpy_reference
        \<lparr>shape = [1, 378], data = concat (replicate 5 (replicate 62 0 @ [1])) @ 1 # replicate 62 0\<rparr>
        ''model_v1.onnx'' (Some ''$$$$$0'') = Inr text \<and>
      v \<in> set (charset_variants charset_63) \<and> map (index_of v) text = idxs)"
proof -
  let ?d = "concat (replicate 5 (replicate 62 0 @ [1])) @ 1 # replicate 62 (0::real)"
  let ?t = "\<lparr>shape = [1, 378], data = ?d\<rparr>"
  have b: "get_model_config ''model_v1.onnx'' = Config 6 ''63''"
    using dollar_row_facts by (simp only: simp_thms)
  have c: "map_of CHAR_SETS ''63'' = Some charset_63" using zeros_378 by (simp only: simp_thms)
  have l: "length charset_63 = 63" using dollar_row_facts by (simp only: simp_thms)
  have sh: "shape ?t = [1, 6 * length charset_63]" unfolding l by simp
  have wf: "wf_array ?t" using dollar_row_facts by (simp add: wf_array_def)
  obtain min_val idxs tx v where
    "np_min (data ?t) = Inr min_val"
    "map_err (segment_argmax numpy_reference min_val (data ?t) (length charset_63)) [0..<6] = Inr idxs"
    "postprocess_output numpy_reference ?t ''model_v1.onnx'' (Some ''$$$$$0'') = Inr tx"
    "v \<in> set (charset_variants charset_63)" "map (index_of v) tx = idxs"
    using flat_segmented_roundtrip [OF b c sh wf, of numpy_reference "Some ''$$$$$0''"] by blast
  then show ?thesis using b by blast
qed

subsection \<open>Selecting a text with an expected text\<close>

lemma crnn_select_general:
  assumes "results \<noteq> []"
  shows "\<exists>r. crnn_select ex results = Inr r \<and>
     (if truthy ex \<and> the ex \<in> set (map snd results) then r = the ex
      else if digit_candidates (map snd results) = [] then r = snd (hd results)
      else first_longest (digit_candidates (map snd results)) r)"
proof -
  let ?b = "fold (\<lambda>t b. prefer_digits b t) (map snd results) []"
  have f: "fold (\<lambda>(name, text) b. prefer_digits b text) results [] = ?b"
    by (simp add: fold_map comp_def case_prod_unfold)
  obtain nm tx rest where first: "results = (nm, tx) # rest"
    using assms by (cases results) auto
  have rest_sel: "(if ?b = [] then (case results of [] \<Rightarrow> Inl IndexError | (name, text) # _ \<Rightarrow> Inr text)
                   else Inr ?b) =
      Inr (if ?b = [] then snd (hd results) else ?b)"
    by (simp add: first)
  have rest_ok: "if digit_candidates (map snd results) = []
      then (if ?b = [] then snd (hd results) else ?b) = snd (hd results)
      else first_longest (digit_candidates (map snd results)) (if ?b = [] then snd (hd results) else ?b)"
  proof (cases "digit_candidates (map snd results) = []")
    case True
    then have "?b = []" using prefer_digits_fold [of "map snd results"] by simp
    then show ?thesis using True by simp
  next
    case False
    then have fl: "first_longest (digit_candidates (map snd results)) ?b"
      using prefer_digits_fold [of "map snd results"] by simp
    then have "?b \<in> set (digit_candidates (map snd results))" by (rule first_longest_mem)
    then have "?b \<noteq> []" by (auto simp: digit_candidates_def isdigit_def)
    then show ?thesis using False fl by simp
  qed
  show ?thesis
  proof (cases "truthy ex \<and> the ex \<in> set (map snd results)")
    case True
    then obtain ref where ref: "ex = Some ref" "ref \<noteq> []" "ref \<in> set (map snd results)"
      by (cases ex) auto
    then have "\<exists>x. x \<in> set results \<and> (\<lambda>(name, text). Some text = ex) x" by auto
    then obtain x where x: "find (\<lambda>(name, text). Some text = ex) results = Some x"
      by (cases "find (\<lambda>(name, text). Some text = ex) results") (auto simp: find_None_iff)
    then have "(\<lambda>(name, text). Some text = ex) x" by (auto simp: find_Some_iff)
    then obtain n where xn: "x = (n, ref)" using ref(1) by (cases x) auto
    have "crnn_select ex results = Inr ref"
      unfolding crnn_select_def Let_def using ref(1,2) x xn by simp
    then show ?thesis using True ref(1) by simp
  next
    case False
    have "(if truthy ex then
               (case find (\<lambda>(name, text). Some text = ex) results of
                  Some (name, text) \<Rightarrow> text
                | None \<Rightarrow> [])
             else []) = []"
    proof (cases "truthy ex")
      case True
      then have "the ex \<notin> set (map snd results)" using False by simp
      then have "find (\<lambda>(name, text). Some text = ex) results = None"
        using True by (cases ex) (force simp: find_None_iff)+
      then show ?thesis by simp
    next
      case False
      then show ?thesis by simp
    qed
    then have "crnn_select ex results = Inr (if ?b = [] then snd (hd results) else ?b)"
      unfolding crnn_select_def Let_def f by (simp only: simp_thms if_True rest_sel)
    then show ?thesis using False rest_ok by auto
  qed
qed

lemma peak_crnn_indices:
  "crnn_indices numpy_reference 0
     \<lparr>shape = [4, 1, 34], data = concat (map peak_row [27, 28, 29, 30])\<rparr> =
   Inr ([27, 28, 29, 30], [(27, 33), (28, 33), (29, 33), (30, 33)])"
proof -
  let ?t = "\<lparr>shape = [4, 1, 34], data = concat (map peak_row [27, 28, 29, 30])\<rparr>"
  have wf: "wf_array ?t" by (simp add: wf_array_def peak_row_def)
  have t2: "top2 numpy_reference (peak_row 27) = Inr (27, 33)"
      "top2 numpy_reference (peak_row 28) = Inr (28, 33)"
      "top2 numpy_reference (peak_row 29) = Inr (29, 33)"
      "top2 numpy_reference (peak_row 30) = Inr (30, 33)"
    by (rule top2_eval, simp add: numpy_reference_def peak_top2)+
  have d: "data ?t = concat (map peak_row [27, 28, 29, 30])" by simp
  have rows: "normalize_rows numpy_reference 0 (rows_of 4 34 (data ?t)) =
      [peak_row 27, peak_row 28, peak_row 29, peak_row 30]"
    unfolding d peak_rows by (simp add: normalize_rows_def)
  have pairs: "map_err (top2 numpy_reference) [peak_row 27, peak_row 28, peak_row 29, peak_row 30] =
      Inr [(27, 33), (28, 33), (29, 33), (30, 33)]"
    by (simp add: t2)
  have "crnn_indices numpy_reference 0 ?t =
     (case map_err (top2 numpy_reference) (normalize_rows numpy_reference 0 (rows_of 4 34 (data ?t))) of
        Inl e \<Rightarrow> Inl e
      | Inr pairs \<Rightarrow>
          Inr (map argmax_idx (normalize_rows numpy_reference 0 (rows_of 4 34 (data ?t))), pairs))"
    by (rule crnn_time_major [OF _ _ _ wf]) simp_all
  then show ?thesis
    by (simp only: rows pairs peak_argmax sum.case)
qed

lemma peak_select_labelled:
  "crnn_select (Some ''QRSU'')
     (crnn_results [27, 28, 29, 30] [(27, 33), (28, 33), (29, 33), (30, 33)]) = Inr ''0123'' \<and>
   select_best ''QRSU''
     (map snd (crnn_results [27, 28, 29, 30] [(27, 33), (28, 33), (29, 33), (30, 33)])) =
     (''QRST'', 35)"
  by code_simp

lemma peak_labelled_call:
  "postprocess_output numpy_reference
     \<lparr>shape = [4, 1, 34], data = concat (map peak_row [27, 28, 29, 30])\<rparr> ''crnn_model.onnx''
     (Some ''QRSU'') = Inr ''0123''"
proof -
  let ?t = "\<lparr>shape = [4, 1, 34], data = concat (map peak_row [27, 28, 29, 30])\<rparr>"
  have d: "data ?t = concat (map peak_row [27, 28, 29, 30])" by simp
  have "postprocess_output numpy_reference ?t ''crnn_model.onnx'' (Some ''QRSU'') =
        decode_crnn numpy_reference 0 ?t (Some ''QRSU'')"
  proof (rule postprocess_crnn)
    show "np_min (data ?t) = Inr 0" unfolding d by (rule peak_min)
  qed (simp_all add: config_crnn)
  then show ?thesis
    by (simp only: decode_crnn_def peak_crnn_indices sum.case prod.case peak_select_labelled)
qed

text \<open>
  Claim C4, as the source has it. The source selects among texts in two places.
  In the loop over the charset variants, for every non-empty list of texts and every
  expected text, the text of the highest score is returned, the first one among equal
  scores; the score of a text that differs from the expected text is 10 times the
  number of positions, up to the shorter length, where the two agree, plus 5 when the
  lengths are equal; the score of the expected text itself is 1000, which is strictly
  higher than every other score when the expected text has fewer than 100 characters.
  Given \<open>AB12\<close> and \<open>A B1\<close> and the expected text \<open>AB13\<close>, this loop returns \<open>AB12\<close>.
  In the CRNN branch no score is computed: for every non-empty list of results, a text
  equal to the (non-empty) expected text is returned when there is one; otherwise the
  first longest text made of digits only with four characters or more; and otherwise
  the first text.
\<close>

theorem hypothesis_scorer:
  assumes "texts \<noteq> []" "results \<noteq> []"
  shows
    "(\<exists>i<length texts. select_best e texts = (texts ! i, match_score (texts ! i) e) \<and>
        (\<forall>j<length texts. match_score (texts ! j) e \<le> match_score (texts ! i) e) \<and>
        (\<forall>j<i. match_score (texts ! j) e < match_score (texts ! i) e)) \<and>
     (\<forall>h. h \<noteq> e \<longrightarrow>
        match_score h e =
          10 * int (card {i. i < min (length h) (length e) \<and> h ! i = e ! i}) +
          (if length h = length e then 5 else 0)) \<and>
     match_score e e = 1000 \<and>
     (\<forall>h. h \<noteq> e \<and> length e < 100 \<longrightarrow> match_score h e < match_score e e) \<and>
     fst (select_best ''AB13'' [''AB12'', ''A B1'']) = ''AB12'' \<and>
     (\<exists>r. crnn_select (Some e) results = Inr r \<and>
        (if e \<noteq> [] \<and> e \<in> set (map snd results) then r = e
         else if digit_candidates (map snd results) = [] then r = snd (hd results)
         else first_longest (digit_candidates (map snd results)) r))"
proof -
  have formula: "\<forall>h. h \<noteq> e \<longrightarrow>
        match_score h e =
          10 * int (card {i. i < min (length h) (length e) \<and> h ! i = e ! i}) +
          (if length h = length e then 5 else 0)"
    by (simp add: match_score_def count_matches)
  have exact: "match_score e e = 1000"
    by (simp add: match_score_def)
  have dominant: "\<forall>h. h \<noteq> e \<and> length e < 100 \<longrightarrow> match_score h e < match_score e e"
    using match_score_below [of _ e] exact by simp
  have crnn: "\<exists>r. crnn_select (Some e) results = Inr r \<and>
        (if e \<noteq> [] \<and> e \<in> set (map snd results) then r = e
         else if digit_candidates (map snd results) = [] then r = snd (hd results)
         else first_longest (digit_candidates (map snd results)) r)"
    using crnn_select_general [OF assms(2), of "Some e"]
    by (simp only: truthy.simps option.sel)
  show ?thesis
    using select_best_first_max [OF assms(1), of e] formula exact dominant select_best_example crnn
    by blast
qed

theorem hypothesis_scorer_witness:
  "[''AB12'', ''A B1''] \<noteq> [] \<and> match_score ''AB13'' ''AB13'' = 1000 \<and>
   fst (select_best ''AB13'' [''AB12'', ''A B1'']) = ''AB12'' \<and>
   crnn_select (Some ''AB13'') [(''a'', ''AB12''), (''b'', ''A B1'')] = Inr ''AB12''"
proof -
  have d: "digit_candidates (map snd [(''a'', ''AB12''), (''b'', ''A B1'')]) = []" by code_simp
  show ?thesis
    using hypothesis_scorer [of "[''AB12'', ''A B1'']" "[(''a'', ''AB12''), (''b'', ''A B1'')]" "''AB13''"] d
    by auto
qed

text \<open>
  Claim C4 as stated fails in two ways. In the loop over the charset variants, with 101
  indices and an expected text of 101 characters, the first variant agrees with the
  expected text at 100 positions and scores 1005, above the 1000 of the variant that
  equals the expected text, and is returned. In the CRNN branch, for four time steps with
  the argmax indices 27, 28, 29, 30 and the expected text \<open>QRSU\<close>, the call returns
  \<open>0123\<close>, where the scoring of the claim selects \<open>QRST\<close> with the score 35.
\<close>

theorem hypothesis_scorer_counterexample:
  "match_score (replicate 100 (CHR ''$'') @ ''a'') (replicate 100 (CHR ''$'') @ ''0'') >
     match_score (replicate 100 (CHR ''$'') @ ''0'') (replicate 100 (CHR ''$'') @ ''0'') \<and>
   decode_indices (Some (replicate 100 (CHR ''$'') @ ''0'')) (replicate 100 62 @ [0]) charset_63 =
     replicate 100 (CHR ''$'') @ ''a'' \<and>
   postprocess_output numpy_reference
     \<lparr>shape = [4, 1, 34], data = concat (map peak_row [27, 28, 29, 30])\<rparr> ''crnn_model.onnx''
     (Some ''QRSU'') = Inr ''0123'' \<and>
   select_best ''QRSU''
     (map snd (crnn_results [27, 28, 29, 30] [(27, 33), (28, 33), (29, 33), (30, 33)])) =
     (''QRST'', 35)"
proof -
  have a: "match_score (replicate 100 (CHR ''$'') @ ''a'') (replicate 100 (CHR ''$'') @ ''0'') >
     match_score (replicate 100 (CHR ''$'') @ ''0'') (replicate 100 (CHR ''$'') @ ''0'') \<and>
   decode_indices (Some (replicate 100 (CHR ''$'') @ ''0'')) (replicate 100 62 @ [0]) charset_63 =
     replicate 100 (CHR ''$'') @ ''a''"
    by code_simp
  show ?thesis using a peak_labelled_call peak_select_labelled by blast
qed

end
